theory Spec2Isabelle
  imports Complex_Main "HOL-Library.Multiset" "HOL-Library.Sublist" "HOL-Library.AList"
begin

text \<open>
  Two files of the Santa Tracker web application: the class \<^verbatim>\<open>app.Lights\<close>, which
  shuffles nine tile images over four lights on every beat of the music, and the build
  file \<^verbatim>\<open>gulpfile.js\<close>, which compiles the scenes and stamps, copies and lists the
  files of a release. The definitions come first, file by file; the properties follow.
\<close>

section \<open>The disco lights of a scene: \<^verbatim>\<open>app.Lights\<close>\<close>

text \<open>
  The class keeps an array of tile numbers (\<^verbatim>\<open>this.tiles\<close>), an array of four
  \<^verbatim>\<open>div\<close> elements (\<^verbatim>\<open>this.lights\<close>) and a flag (\<^verbatim>\<open>this.active\<close>). Arrays and
  elements are JavaScript objects: they live in a store and are handled through their
  addresses, so that a mutation made through one reference is seen through every other.

  \<^verbatim>\<open>Math.random()\<close> is the only source of nondeterminism. It is modelled by the
  sequence of the numbers it returns during the run (\<open>rnd k\<close> is the value of call
  number \<open>k\<close>) and a counter of the calls made so far, kept in the store. The
  language promises a number in \<open>[0, 1)\<close>; the theorems assume exactly that.
\<close>

type_synonym ref = nat

type_synonym random = "nat \<Rightarrow> real"

datatype js_error = TypeError

record element =
  classList :: "string list"
  backgroundImage :: string
  childNodes :: "ref list"

record 'a world =
  arrays :: "ref \<rightharpoonup> 'a list"
  elements :: "ref \<rightharpoonup> element"
  next_ref :: ref
  draws :: nat

subsection \<open>Array cells in the store\<close>

text \<open>
  \<^verbatim>\<open>array[i]\<close> and \<^verbatim>\<open>array[i] = v\<close> for an index inside the array. (Outside, JavaScript
  reads \<^verbatim>\<open>undefined\<close> and a write extends the array; \<open>shuffle_index_in_range\<close> below
  shows that the shuffle never gets there.)
\<close>

definition array_read :: "'a world \<Rightarrow> ref \<Rightarrow> nat \<Rightarrow> 'a" where
  "array_read w a i = the (arrays w a) ! i"

definition array_store :: "'a world \<Rightarrow> ref \<Rightarrow> nat \<Rightarrow> 'a \<Rightarrow> 'a world" where
  "array_store w a i v = w\<lparr>arrays := (arrays w)(a \<mapsto> (the (arrays w a))[i := v])\<rparr>"

subsection \<open>\<^verbatim>\<open>shuffle_\<close> (here \<open>shuffle\<close>: a name cannot end in an underscore)\<close>

text \<open>
  \<^verbatim>\<open>
  shuffle_(array) {
    for (var i = array.length - 1; i > 0; i--) {
        var j = Math.floor(Math.random() * (i + 1));
        var temp = array[i];
        array[i] = array[j];
        array[j] = temp;
    }
    return array;
  }
  \<close>
  The loop counts \<open>i\<close> down to 1; the recursion is on \<open>i\<close>.

  The source multiplies in floating point, the model in the reals. For a random number
  below 1 both products are below \<open>i + 1\<close> (rounding cannot reach \<open>i + 1\<close> for an array
  of fewer than \<open>2\<^sup>5\<^sup>3\<close> elements), so \<open>j\<close> is one of \<open>0, \<dots>, i\<close> in both;
  and the model can draw each of these indices, with \<open>rnd k = j / (i + 1)\<close>. A
  statement about every sequence \<open>rnd\<close> therefore covers every sequence of indices
  that the source can draw.
\<close>

definition random_index :: "random \<Rightarrow> nat \<Rightarrow> nat \<Rightarrow> nat" where
  "random_index rnd k i = nat \<lfloor>rnd k * real (i + 1)\<rfloor>"

fun shuffle_loop :: "random \<Rightarrow> ref \<Rightarrow> nat \<Rightarrow> 'a world \<Rightarrow> 'a world" where
  "shuffle_loop rnd array 0 w = w"
| "shuffle_loop rnd array (Suc n) w =
     (let i = Suc n;
          j = random_index rnd (draws w) i;
          w = w\<lparr>draws := Suc (draws w)\<rparr>;
          temp = array_read w array i;
          w = array_store w array i (array_read w array j);
          w = array_store w array j temp
      in shuffle_loop rnd array n w)"

text \<open>
  \<^verbatim>\<open>array.length\<close> of a reference that is no object is a \<^verbatim>\<open>TypeError\<close>. The result
  is the reference that was passed in, with the store as the loop left it.
\<close>

definition shuffle :: "random \<Rightarrow> ref \<Rightarrow> 'a world \<Rightarrow> js_error + (ref \<times> 'a world)" where
  "shuffle rnd array w =
     (case arrays w array of
        None \<Rightarrow> Inl TypeError
      | Some xs \<Rightarrow> Inr (array, shuffle_loop rnd array (length xs - 1) w))"

definition unit_interval :: "random \<Rightarrow> bool" where
  "unit_interval rnd = (\<forall>k. 0 \<le> rnd k \<and> rnd k < 1)"

subsection \<open>The constructor\<close>

text \<open>
  \<^verbatim>\<open>
  constructor(el) {
    const numberOfTiles = 9;
    const numberOfLights = 4;
    this.tiles = Array.from({length: numberOfTiles}, (k, v) => v + 1);
    this.lights = Array.from({length: numberOfLights}).map(() => {
      let light = document.createElement('div');
      light.classList.add('scene__light');
      return light;
    })
    this.lights.forEach(light => el.appendChild(light));
    this.active = false;
  }
  \<close>
  A new object gets the next free address. The array \<^verbatim>\<open>this.lights\<close> is built once
  and only read afterwards, so the instance holds it as the list of its elements'
  addresses; \<^verbatim>\<open>this.tiles\<close> is mutated by the shuffle and is held by address.
\<close>

record Lights =
  tiles :: ref
  lights :: "ref list"
  active :: bool

definition new_array :: "'a list \<Rightarrow> 'a world \<Rightarrow> ref \<times> 'a world" where
  "new_array xs w =
     (next_ref w, w\<lparr>arrays := (arrays w)(next_ref w \<mapsto> xs), next_ref := Suc (next_ref w)\<rparr>)"

definition createElement :: "'a world \<Rightarrow> ref \<times> 'a world" where
  "createElement w =
     (next_ref w,
      w\<lparr>elements := (elements w)(next_ref w \<mapsto>
            \<lparr>classList = [], backgroundImage = [], childNodes = []\<rparr>),
        next_ref := Suc (next_ref w)\<rparr>)"

text \<open>\<^verbatim>\<open>classList.add\<close> adds a token that is not there yet.\<close>

definition classList_add :: "ref \<Rightarrow> string \<Rightarrow> 'a world \<Rightarrow> js_error + 'a world" where
  "classList_add r c w =
     (case elements w r of
        None \<Rightarrow> Inl TypeError
      | Some e \<Rightarrow>
          Inr (w\<lparr>elements := (elements w)(r \<mapsto>
                 e\<lparr>classList := (if c \<in> set (classList e) then classList e
                                   else classList e @ [c])\<rparr>)\<rparr>))"

text \<open>
  \<^verbatim>\<open>el.appendChild(light)\<close>: a \<^verbatim>\<open>TypeError\<close> when \<^verbatim>\<open>el\<close> is no element; otherwise
  \<^verbatim>\<open>light\<close> becomes the last child (a node that is a child already moves to the end).
\<close>

definition appendChild :: "ref \<Rightarrow> ref \<Rightarrow> 'a world \<Rightarrow> js_error + 'a world" where
  "appendChild el light w =
     (case elements w el of
        None \<Rightarrow> Inl TypeError
      | Some e \<Rightarrow>
          Inr (w\<lparr>elements := (elements w)(el \<mapsto>
                 e\<lparr>childNodes := filter (\<lambda>c. c \<noteq> light) (childNodes e) @ [light]\<rparr>)\<rparr>))"

text \<open>The callback of \<^verbatim>\<open>map\<close>, run \<open>n\<close> times: it returns the new lights in order.\<close>

fun create_lights :: "nat \<Rightarrow> 'a world \<Rightarrow> js_error + (ref list \<times> 'a world)" where
  "create_lights 0 w = Inr ([], w)"
| "create_lights (Suc n) w =
     (let (light, w) = createElement w in
      case classList_add light ''scene__light'' w of
        Inl e \<Rightarrow> Inl e
      | Inr w \<Rightarrow>
          (case create_lights n w of
             Inl e \<Rightarrow> Inl e
           | Inr (rest, w) \<Rightarrow> Inr (light # rest, w)))"

fun append_lights :: "ref \<Rightarrow> ref list \<Rightarrow> 'a world \<Rightarrow> js_error + 'a world" where
  "append_lights el [] w = Inr w"
| "append_lights el (light # rest) w =
     (case appendChild el light w of
        Inl e \<Rightarrow> Inl e
      | Inr w \<Rightarrow> append_lights el rest w)"

definition numberOfTiles :: nat where
  "numberOfTiles = 9"

definition numberOfLights :: nat where
  "numberOfLights = 4"

definition Lights_constructor :: "ref \<Rightarrow> nat world \<Rightarrow> js_error + (Lights \<times> nat world)" where
  "Lights_constructor el w =
     (let (t, w) = new_array (map (\<lambda>v. v + 1) [0..<numberOfTiles]) w in
      case create_lights numberOfLights w of
        Inl e \<Rightarrow> Inl e
      | Inr (ls, w) \<Rightarrow>
          (case append_lights el ls w of
             Inl e \<Rightarrow> Inl e
           | Inr w \<Rightarrow> Inr (\<lparr>tiles = t, lights = ls, active = False\<rparr>, w)))"

subsection \<open>\<^verbatim>\<open>setLevel\<close> and \<^verbatim>\<open>onBeat\<close>\<close>

text \<open>
  \<^verbatim>\<open>
  setLevel(level) {
    this.active = level.stage === 'stage2';
  }
  \<close>
\<close>

record level =
  stage :: string

definition setLevel :: "level \<Rightarrow> Lights \<Rightarrow> Lights" where
  "setLevel lv this = this\<lparr>active := (stage lv = ''stage2'')\<rparr>"

text \<open>
  The decimal digits of a number, as a template literal writes a non-negative integer;
  and \<^verbatim>\<open>this.tiles[index]\<close>, which is \<^verbatim>\<open>undefined\<close> past the end of the array.
\<close>

fun to_decimal :: "nat \<Rightarrow> string" where
  "to_decimal n =
     (if n < 10 then [''0123456789'' ! n]
      else to_decimal (n div 10) @ [''0123456789'' ! (n mod 10)])"

declare to_decimal.simps [simp del]

definition tile_text :: "nat list \<Rightarrow> nat \<Rightarrow> string" where
  "tile_text xs index = (if index < length xs then to_decimal (xs ! index) else ''undefined'')"

definition disco_url :: "string \<Rightarrow> string" where
  "disco_url t = ''url(img/stages/disco_'' @ t @ ''.svg)''"

text \<open>
  \<^verbatim>\<open>
  onBeat(beat, bpm) {
    if (!this.active) return;

    this.shuffle_(this.tiles);

    this.lights.forEach((light, index) => {
      light.style.backgroundImage = `url(img/stages/disco_${this.tiles[index]}.svg)`;
    });
  }
  \<close>
  The value \<^verbatim>\<open>shuffle_\<close> returns is dropped: the callback reads \<^verbatim>\<open>this.tiles\<close> again,
  from the store.
\<close>

fun paint_lights :: "Lights \<Rightarrow> ref list \<Rightarrow> nat \<Rightarrow> nat world \<Rightarrow> js_error + nat world" where
  "paint_lights this [] index w = Inr w"
| "paint_lights this (light # rest) index w =
     (case arrays w (tiles this) of
        None \<Rightarrow> Inl TypeError
      | Some xs \<Rightarrow>
          (case elements w light of
             None \<Rightarrow> Inl TypeError
           | Some e \<Rightarrow>
               paint_lights this rest (Suc index)
                 (w\<lparr>elements := (elements w)(light \<mapsto>
                      e\<lparr>backgroundImage := disco_url (tile_text xs index)\<rparr>)\<rparr>)))"

definition onBeat ::
  "random \<Rightarrow> nat \<Rightarrow> nat \<Rightarrow> Lights \<times> nat world \<Rightarrow> js_error + (Lights \<times> nat world)" where
  "onBeat rnd beat bpm s =
     (let (this, w) = s in
      if \<not> active this then Inr (this, w)
      else
        (case shuffle rnd (tiles this) w of
           Inl e \<Rightarrow> Inl e
         | Inr (_, w) \<Rightarrow>
             (case paint_lights this (lights this) 0 w of
                Inl e \<Rightarrow> Inl e
              | Inr w \<Rightarrow> Inr (this, w))))"

text \<open>A client of the class calls its two methods in any order.\<close>

datatype call = SetLevel level | OnBeat nat nat

fun do_call :: "random \<Rightarrow> call \<Rightarrow> Lights \<times> nat world \<Rightarrow> js_error + (Lights \<times> nat world)" where
  "do_call rnd (SetLevel lv) (this, w) = Inr (setLevel lv this, w)"
| "do_call rnd (OnBeat beat bpm) s = onBeat rnd beat bpm s"

fun run_calls ::
  "random \<Rightarrow> call list \<Rightarrow> Lights \<times> nat world \<Rightarrow> js_error + (Lights \<times> nat world)" where
  "run_calls rnd [] s = Inr s"
| "run_calls rnd (c # cs) s =
     (case do_call rnd c s of
        Inl e \<Rightarrow> Inl e
      | Inr s' \<Rightarrow> run_calls rnd cs s')"

subsection \<open>What the properties speak of\<close>

text \<open>
  The tiles as the constructor builds them; the background images of the lights, in
  the order of \<^verbatim>\<open>this.lights\<close>; and the facts about an instance that every method
  keeps: the tiles are a permutation of 1 to 9, and the four lights are four different
  elements of the store.
\<close>

definition tiles_1_to_9 :: "nat list" where
  "tiles_1_to_9 = [1, 2, 3, 4, 5, 6, 7, 8, 9]"

definition light_images :: "Lights \<Rightarrow> nat world \<Rightarrow> string option list" where
  "light_images this w = map (\<lambda>r. map_option backgroundImage (elements w r)) (lights this)"

definition Lights_inv :: "Lights \<Rightarrow> nat world \<Rightarrow> bool" where
  "Lights_inv this w =
     ((\<exists>xs. arrays w (tiles this) = Some xs \<and> mset xs = mset tiles_1_to_9)
      \<and> length (lights this) = 4 \<and> distinct (lights this)
      \<and> set (lights this) \<subseteq> dom (elements w))"

text \<open>
  A page with one element (at address 0) and nothing else, an instance as the
  constructor builds it there, switched on, and a run of the class on that page.
\<close>

definition demo_world :: "nat world" where
  "demo_world = \<lparr>arrays = Map.empty,
     elements = [0 \<mapsto> \<lparr>classList = [], backgroundImage = [], childNodes = []\<rparr>],
     next_ref = 1, draws = 0\<rparr>"

definition demo_lights :: Lights where
  "demo_lights = \<lparr>tiles = 1, lights = [2, 3, 4, 5], active = True\<rparr>"

definition demo_after :: "call list \<Rightarrow> js_error + (bool \<times> nat list option \<times> string option list)" where
  "demo_after calls =
     (case Lights_constructor 0 demo_world of
        Inl e \<Rightarrow> Inl e
      | Inr s \<Rightarrow>
          (case run_calls (\<lambda>k. 1 / 2) calls s of
             Inl e \<Rightarrow> Inl e
           | Inr (this, w) \<Rightarrow> Inr (active this, arrays w (tiles this), light_images this w)))"

section \<open>The build file: \<^verbatim>\<open>gulpfile.js\<close>\<close>

subsection \<open>Command line and derived constants\<close>

text \<open>
  \<^verbatim>\<open>argv\<close> as yargs hands it over: every option has a default, so every field has a
  value; \<^verbatim>\<open>scene\<close> defaults to \<^verbatim>\<open>null\<close>. The default of \<^verbatim>\<open>build\<close> is computed from the
  clock; here it is whatever string \<^verbatim>\<open>argv.build\<close> holds.
\<close>

record argv =
  pretty :: bool
  strict :: bool
  api_base :: string
  build :: string
  baseurl :: string
  scene :: "string option"
  port :: nat
  devmode :: bool

definition dq :: char where
  "dq = CHR 0x22"

definition sq :: char where
  "sq = CHR 0x27"





text \<open>
  \<^verbatim>\<open>s.replace(/\/*$/, '/')\<close>. The pattern has no \<^verbatim>\<open>g\<close> flag, so the leftmost match is
  replaced: the search tries each start position in turn, and the pattern matches at a
  position exactly when only slashes follow up to the end of the string.
\<close>

fun replace_trailing_slashes :: "string \<Rightarrow> string" where
  "replace_trailing_slashes [] = ''/''"
| "replace_trailing_slashes (c # cs) =
     (if list_all (\<lambda>x. x = CHR ''/'') (c # cs) then ''/''
      else c # replace_trailing_slashes cs)"

definition API_BASE_URL :: "argv \<Rightarrow> string" where
  "API_BASE_URL a = replace_trailing_slashes (api_base a)"

definition STATIC_BASE_URL :: "argv \<Rightarrow> string" where
  "STATIC_BASE_URL a = replace_trailing_slashes (baseurl a)"

definition STATIC_URL :: "argv \<Rightarrow> string" where
  "STATIC_URL a = (if pretty a then [] else STATIC_BASE_URL a @ build a @ ''/'')"

definition STATIC_VERSION :: "argv \<Rightarrow> string" where
  "STATIC_VERSION a = build a"

definition PROD_DIR :: string where
  "PROD_DIR = ''dist_prod''"

definition STATIC_DIR :: string where
  "STATIC_DIR = ''dist_static''"

definition PRETTY_DIR :: string where
  "PRETTY_DIR = ''dist_pretty''"

definition DIST_PROD_DIR :: "argv \<Rightarrow> string" where
  "DIST_PROD_DIR a = (if pretty a then PRETTY_DIR else PROD_DIR)"

definition DIST_STATIC_DIR :: "argv \<Rightarrow> string" where
  "DIST_STATIC_DIR a = (if pretty a then PRETTY_DIR else STATIC_DIR @ ''/'' @ build a)"

subsection \<open>The scene table and \<^verbatim>\<open>SCENE_NAMES\<close>\<close>

text \<open>
  \<^verbatim>\<open>SCENE_CLOSURE_CONFIG = require('./scenes')\<close> is a parameter of the model: the table
  of scene names and configurations, in the order in which \<^verbatim>\<open>Object.keys\<close> lists the
  names (the order of the file, as long as no name is a decimal number). A field that
  an entry leaves out reads \<^verbatim>\<open>undefined\<close>, here \<open>None\<close>.

  \<^verbatim>\<open>SCENE_CLOSURE_CONFIG[name]\<close> is a property read. A name that the table does not
  hold reads \<^verbatim>\<open>undefined\<close>, unless every object inherits it (\<^verbatim>\<open>constructor\<close>,
  \<^verbatim>\<open>toString\<close>, ...): then the read gives an object on which all the fields of a
  configuration read \<^verbatim>\<open>undefined\<close>.
\<close>

record scene_config =
  entryPoint :: "string option"
  typeSafe :: "bool option"
  isFrame :: "bool option"
  closureLibrary :: "bool option"
  libraries :: "string list option"
  dependencies :: "string list option"

type_synonym scene_table = "(string \<times> scene_config) list"

definition no_fields :: scene_config where
  "no_fields = \<lparr>entryPoint = None, typeSafe = None, isFrame = None, closureLibrary = None,
     libraries = None, dependencies = None\<rparr>"

definition Object_prototype_names :: "string list" where
  "Object_prototype_names =
     [''constructor'', ''hasOwnProperty'', ''isPrototypeOf'', ''propertyIsEnumerable'',
      ''toLocaleString'', ''toString'', ''valueOf'', ''__proto__'', ''__defineGetter__'',
      ''__defineSetter__'', ''__lookupGetter__'', ''__lookupSetter__'']"

definition config_lookup :: "scene_table \<Rightarrow> string \<Rightarrow> scene_config option" where
  "config_lookup tbl name =
     (case map_of tbl name of
        Some c \<Rightarrow> Some c
      | None \<Rightarrow> if name \<in> set Object_prototype_names then Some no_fields else None)"


subsection \<open>The task \<^verbatim>\<open>compile-scenes\<close>\<close>

text \<open>
  The options object of the compiler, key by key in the order of the source. A key
  whose value is \<^verbatim>\<open>null\<close> is a flag without a value.
\<close>

datatype flag = Str string | Strs "string list" | Bool bool | Null | Undefined

type_synonym flags = "(string \<times> flag) list"



text \<open>
  What the body of the \<^verbatim>\<open>reduce\<close> callback sets up for one scene: the globs read, the
  file \<^verbatim>\<open>$.newer\<close> compares with, the options of \<^verbatim>\<open>$.closureCompiler\<close> and the
  directory \<^verbatim>\<open>gulp.dest\<close> writes to. \<^verbatim>\<open>closureLibraryPath\<close> is
  \<^verbatim>\<open>path.resolve('components/closure-library/closure/goog')\<close>, which depends on the
  working directory; it is a parameter.
\<close>

record scene_job =
  sources :: "string list"
  newer :: string
  compilerPath :: string
  continueWithWarnings :: bool
  fileName :: string
  compilerFlags :: flags
  dest :: string






subsection \<open>Strings and paths of the platform\<close>

text \<open>
  \<^verbatim>\<open>String.prototype.split\<close> with a string separator and \<^verbatim>\<open>Array.prototype.join\<close>.
  \<open>split_from sep cur s\<close> reads \<open>s\<close> from the left with \<open>cur\<close> the piece collected
  so far; an empty separator splits a string into its characters.
\<close>

fun js_join :: "string \<Rightarrow> string list \<Rightarrow> string" where
  "js_join sep [] = []"
| "js_join sep [x] = x"
| "js_join sep (x # y # ys) = x @ sep @ js_join sep (y # ys)"

fun split_from :: "string \<Rightarrow> string \<Rightarrow> string \<Rightarrow> string list" where
  "split_from sep cur [] = [cur]"
| "split_from sep cur (c # cs) =
     (if prefix sep (c # cs) then cur # split_from sep [] (drop (length sep - 1) cs)
      else split_from sep (cur @ [c]) cs)"

definition js_split :: "string \<Rightarrow> string \<Rightarrow> string list" where
  "js_split sep s = (if sep = [] then map (\<lambda>c. [c]) s else split_from sep [] s)"

text \<open>
  \<^verbatim>\<open>path.normalize\<close>, \<^verbatim>\<open>path.join\<close> (of two segments), \<^verbatim>\<open>path.dirname\<close> and
  \<^verbatim>\<open>path.basename\<close> of Node on a POSIX system:
  \<^verbatim>\<open>
  function normalizeArray(parts, allowAboveRoot) {
    var res = [];
    for (var i = 0; i < parts.length; i++) {
      var p = parts[i];
      if (!p || p === '.') continue;
      if (p === '..') {
        if (res.length && res[res.length - 1] !== '..') res.pop();
        else if (allowAboveRoot) res.push('..');
      } else res.push(p);
    }
    return res;
  }
  posix.normalize = function(path) {
    var isAbsolute = posix.isAbsolute(path),
        trailingSlash = path && path[path.length - 1] === '/';
    path = normalizeArray(path.split('/'), !isAbsolute).join('/');
    if (!path && !isAbsolute) path = '.';
    if (path && trailingSlash) path += '/';
    return (isAbsolute ? '/' : '') + path;
  };
  \<close>
  \<^verbatim>\<open>dirname\<close> drops the slashes at the end and the last segment, and cuts at the slash
  before it; the first character of the path is never taken for that slash.
  \<^verbatim>\<open>basename\<close> is the last segment, slashes at the end dropped.
\<close>

definition normalize_part :: "bool \<Rightarrow> string list \<Rightarrow> string \<Rightarrow> string list" where
  "normalize_part allowAboveRoot res p =
     (if p = [] \<or> p = ''.'' then res
      else if p = ''..'' then
        (if res \<noteq> [] \<and> last res \<noteq> ''..'' then butlast res
         else if allowAboveRoot then res @ [''..'']
         else res)
      else res @ [p])"

definition normalizeArray :: "string list \<Rightarrow> bool \<Rightarrow> string list" where
  "normalizeArray parts allowAboveRoot = foldl (normalize_part allowAboveRoot) [] parts"

definition path_normalize :: "string \<Rightarrow> string" where
  "path_normalize path =
     (let isAbsolute = (path \<noteq> [] \<and> hd path = CHR ''/'');
          trailingSlash = (path \<noteq> [] \<and> last path = CHR ''/'');
          p = js_join ''/'' (normalizeArray (js_split ''/'' path) (\<not> isAbsolute));
          p = (if p = [] \<and> \<not> isAbsolute then ''.'' else p);
          p = (if p \<noteq> [] \<and> trailingSlash then p @ ''/'' else p)
      in (if isAbsolute then ''/'' else []) @ p)"

definition path_join :: "string \<Rightarrow> string \<Rightarrow> string" where
  "path_join x y = path_normalize (if x = [] then y else if y = [] then x else x @ ''/'' @ y)"

definition path_dirname :: "string \<Rightarrow> string" where
  "path_dirname path =
     (case path of
        [] \<Rightarrow> ''.''
      | c # rest \<Rightarrow>
          (let hasRoot = (c = CHR ''/'');
               r = dropWhile (\<lambda>x. x \<noteq> CHR ''/'') (dropWhile (\<lambda>x. x = CHR ''/'') (rev rest))
           in case r of
                [] \<Rightarrow> if hasRoot then ''/'' else ''.''
              | _ # front \<Rightarrow> if hasRoot \<and> front = [] then ''//'' else c # rev front))"

definition path_basename :: "string \<Rightarrow> string" where
  "path_basename path =
     rev (takeWhile (\<lambda>x. x \<noteq> CHR ''/'') (dropWhile (\<lambda>x. x = CHR ''/'') (rev path)))"

subsection \<open>The task \<^verbatim>\<open>vulcanize-scenes\<close>\<close>

text \<open>
  \<^verbatim>\<open>
  const elementsPath = 'elements/elements_en.html';
  const elementsImports = (function() {
    const r = /href="(.*?)"/g;
    const el = fs.readFileSync(elementsPath, 'utf-8');
    const all = [];
    let out;
    while ((out = r.exec(el))) {
      const raw = out[1];
      const i = path.join(path.dirname(elementsPath), raw);
      all.push(i);
    }
    return all;
  }());
  \<close>
  The text of the file is a parameter. Each \<^verbatim>\<open>exec\<close> finds the leftmost match at or
  after the end of the last one. At a position the pattern matches when \<^verbatim>\<open>href="\<close>
  stands there and a double quote follows on the same line; the group is the text up to
  the first such quote (\<^verbatim>\<open>.*?\<close> is lazy, and \<^verbatim>\<open>.\<close> matches no line terminator: line
  feed, carriage return, U+2028 and U+2029, the last two being three bytes each in a
  UTF-8 text).
\<close>

definition line_terminator_at :: "string \<Rightarrow> bool" where
  "line_terminator_at s =
     (prefix [CHR 0x0A] s \<or> prefix [CHR 0x0D] s
      \<or> prefix [CHR 0xE2, CHR 0x80, CHR 0xA8] s \<or> prefix [CHR 0xE2, CHR 0x80, CHR 0xA9] s)"

fun until_quote :: "string \<Rightarrow> string option" where
  "until_quote [] = None"
| "until_quote (c # cs) =
     (if c = dq then Some []
      else if line_terminator_at (c # cs) then None
      else map_option (\<lambda>raw. c # raw) (until_quote cs))"

definition href_open :: string where
  "href_open = ''href='' @ [dq]"

fun href_matches :: "string \<Rightarrow> string list" where
  "href_matches [] = []"
| "href_matches (c # cs) =
     (if prefix href_open (c # cs) then
        (case until_quote (drop (length href_open) (c # cs)) of
           None \<Rightarrow> href_matches cs
         | Some raw \<Rightarrow> raw # href_matches (drop (length href_open + length raw + 1) (c # cs)))
      else href_matches cs)"

definition elementsPath :: string where
  "elementsPath = ''elements/elements_en.html''"

definition elementsImports :: "string \<Rightarrow> string list" where
  "elementsImports el = map (\<lambda>raw. path_join (path_dirname elementsPath) raw) (href_matches el)"

text \<open>
  \<^verbatim>\<open>
  const dest = path.dirname(path.relative(__dirname, file.path));
  const sceneName = path.basename(dest);
  const closureConfig = SCENE_CLOSURE_CONFIG[sceneName] || {};

  return stream.pipe($.vulcanize({
    stripExcludes: closureConfig.isFrame ? [] : elementsImports,
    inlineScripts: true,
    inlineCss: true,
    stripComments: true,
    dest: dest
  }))
  \<close>
  \<open>rel\<close> is \<^verbatim>\<open>path.relative(__dirname, file.path)\<close>: the path of the scene's HTML file
  from the directory of the build file. The result is the options object handed to
  \<^verbatim>\<open>$.vulcanize\<close> for that file (its field \<^verbatim>\<open>dest\<close> is \<open>vulcanize_dest\<close> here).
\<close>

record vulcanize_options =
  stripExcludes :: "string list"
  inlineScripts :: bool
  inlineCss :: bool
  stripComments :: bool
  vulcanize_dest :: string

definition scene_of :: "string \<Rightarrow> string" where
  "scene_of rel = path_basename (path_dirname rel)"

definition vulcanize_scene :: "scene_table \<Rightarrow> string \<Rightarrow> string \<Rightarrow> vulcanize_options" where
  "vulcanize_scene tbl el rel =
     (let dest = path_dirname rel;
          sceneName = path_basename dest;
          closureConfig = (case config_lookup tbl sceneName of None \<Rightarrow> no_fields | Some c \<Rightarrow> c)
      in \<lparr>stripExcludes = (if isFrame closureConfig = Some True then [] else elementsImports el),
          inlineScripts = True,
          inlineCss = True,
          stripComments = True,
          vulcanize_dest = dest\<rparr>)"

subsection \<open>The task \<^verbatim>\<open>build-prod\<close>\<close>

text \<open>
  \<^verbatim>\<open>$.replace(search, replacement)\<close> is gulp-replace. With a string to search for it
  replaces every occurrence, by \<^verbatim>\<open>contents.split(search).join(replacement)\<close>; the
  replacement is taken as it is.
\<close>

definition gulp_replace :: "string \<Rightarrow> string \<Rightarrow> string \<Rightarrow> string" where
  "gulp_replace search replacement contents = js_join replacement (js_split search contents)"

text \<open>
  With a regular expression it calls \<^verbatim>\<open>contents.replace(search, replacement)\<close>. The
  two expressions of the task have no \<^verbatim>\<open>g\<close> flag, so the leftmost match is replaced,
  and the replacement is a template: \<^verbatim>\<open>$$\<close> stands for a dollar sign, \<^verbatim>\<open>$&\<close> for the
  matched text, \<^verbatim>\<open>$`\<close> for the text before the match and \<^verbatim>\<open>$'\<close> for the text after it.
  (The expressions have no groups, so \<^verbatim>\<open>$1\<close> and the like stay as they are.)
\<close>

fun get_substitution :: "string \<Rightarrow> string \<Rightarrow> string \<Rightarrow> string \<Rightarrow> string" where
  "get_substitution matched front back (c # d # r) =
     (if c = CHR ''$'' \<and> d = CHR ''$'' then CHR ''$'' # get_substitution matched front back r
      else if c = CHR ''$'' \<and> d = CHR ''&'' then matched @ get_substitution matched front back r
      else if c = CHR ''$'' \<and> d = CHR 0x60 then front @ get_substitution matched front back r
      else if c = CHR ''$'' \<and> d = sq then back @ get_substitution matched front back r
      else c # get_substitution matched front back (d # r))"
| "get_substitution matched front back r = r"

text \<open>
  \<^verbatim>\<open>/window\.DEV ?= ?true.*/\<close> at the start of a string: \<^verbatim>\<open>window.DEV\<close>, a space or
  none, \<^verbatim>\<open>=\<close>, a space or none, \<^verbatim>\<open>true\<close>, and then the rest of the line. The result
  is what follows the match. (Taking the optional space first and giving it back on
  failure finds nothing more: without the space the next character would have to be
  the space itself.) \<^verbatim>\<open>strip_dev\<close> replaces the leftmost match by the empty string.
\<close>

definition after_prefix :: "string \<Rightarrow> string \<Rightarrow> string option" where
  "after_prefix p s = (if prefix p s then Some (drop (length p) s) else None)"

definition opt_space :: "string \<Rightarrow> string" where
  "opt_space s = (if prefix '' '' s then drop 1 s else s)"

fun to_line_end :: "string \<Rightarrow> string" where
  "to_line_end [] = []"
| "to_line_end (c # cs) = (if line_terminator_at (c # cs) then c # cs else to_line_end cs)"

definition match_dev :: "string \<Rightarrow> string option" where
  "match_dev s =
     (case after_prefix ''window.DEV'' s of
        None \<Rightarrow> None
      | Some r \<Rightarrow>
          (case after_prefix ''='' (opt_space r) of
             None \<Rightarrow> None
           | Some r \<Rightarrow>
               (case after_prefix ''true'' (opt_space r) of
                  None \<Rightarrow> None
                | Some r \<Rightarrow> Some (to_line_end r))))"

fun strip_dev :: "string \<Rightarrow> string" where
  "strip_dev [] = []"
| "strip_dev (c # cs) =
     (case match_dev (c # cs) of
        Some rest \<Rightarrow> rest
      | None \<Rightarrow> c # strip_dev cs)"

text \<open>
  \<^verbatim>\<open>/const version ?= ?\'\';/\<close> in the same way, and the replacement of its leftmost
  match by a template; \<open>front\<close> collects the text before the position tried.
\<close>

definition match_version :: "string \<Rightarrow> string option" where
  "match_version s =
     (case after_prefix ''const version'' s of
        None \<Rightarrow> None
      | Some r \<Rightarrow>
          (case after_prefix ''='' (opt_space r) of
             None \<Rightarrow> None
           | Some r \<Rightarrow> after_prefix ([sq, sq] @ '';'') (opt_space r)))"

fun replace_version :: "string \<Rightarrow> string \<Rightarrow> string \<Rightarrow> string" where
  "replace_version replacement front [] = front"
| "replace_version replacement front (c # cs) =
     (case match_version (c # cs) of
        Some rest \<Rightarrow>
          front
          @ get_substitution (take (length (c # cs) - length rest) (c # cs)) front rest replacement
          @ rest
      | None \<Rightarrow> replace_version replacement (front @ [c]) cs)"

text \<open>
  \<^verbatim>\<open>
  gulp.task('build-prod', function() {
    const htmlStream = gulp.src(['index.html', 'error.html', 'upgrade.html', 'cast.html'])
      .pipe(argv.pretty ? gutil.noop() : $.replace(/window\.DEV ?= ?true.*/, ''))
      .pipe($.replace('<base href="">', `<base href="${STATIC_URL}">`))
      .pipe($.replace('data-version=""', `data-version="${STATIC_VERSION}"`))
      .pipe(i18n_replace({
        strict: !!argv.strict,
        path: '_messages',
      }))
      .pipe(gulp.dest(DIST_PROD_DIR));

    const jsStream = gulp.src(['sw.js'])
      .pipe($.replace('./STATIC_PATH/', STATIC_URL))
      .pipe($.replace(/const version ?= ?\'\';/, `const version = '${STATIC_VERSION}';`))
      .pipe(gulp.dest(DIST_PROD_DIR));

    return mergeStream(htmlStream, jsStream);
  });
  \<close>
  A file of a stream is its name and its contents. \<^verbatim>\<open>gulp.src\<close> of plain names reads
  the files that exist. \<^verbatim>\<open>i18n_replace\<close> (\<^verbatim>\<open>gulp_scripts/i18n_replace\<close>) is a parameter:
  a function from the stream it receives to the stream it passes on. The task returns
  the two streams merged; the model gives the files written by each.
\<close>

definition base_href_placeholder :: string where
  "base_href_placeholder = ''<base href='' @ [dq, dq] @ ''>''"

definition stamp_base_href :: "argv \<Rightarrow> string \<Rightarrow> string" where
  "stamp_base_href a =
     gulp_replace base_href_placeholder (''<base href='' @ [dq] @ STATIC_URL a @ [dq] @ ''>'')"

definition stamp_data_version :: "argv \<Rightarrow> string \<Rightarrow> string" where
  "stamp_data_version a =
     gulp_replace (''data-version='' @ [dq, dq]) (''data-version='' @ [dq] @ STATIC_VERSION a @ [dq])"

definition stamp_static_path :: "argv \<Rightarrow> string \<Rightarrow> string" where
  "stamp_static_path a = gulp_replace ''./STATIC_PATH/'' (STATIC_URL a)"

definition stamp_sw_version :: "argv \<Rightarrow> string \<Rightarrow> string" where
  "stamp_sw_version a =
     replace_version (''const version = '' @ [sq] @ STATIC_VERSION a @ [sq] @ '';'') []"

definition html_stamp :: "argv \<Rightarrow> string \<Rightarrow> string" where
  "html_stamp a contents =
     stamp_data_version a (stamp_base_href a (if pretty a then contents else strip_dev contents))"

definition js_stamp :: "argv \<Rightarrow> string \<Rightarrow> string" where
  "js_stamp a contents = stamp_sw_version a (stamp_static_path a contents)"

type_synonym vinyl = "string \<times> string"

definition gulp_src :: "string list \<Rightarrow> (string \<rightharpoonup> string) \<Rightarrow> vinyl list" where
  "gulp_src names fs = concat (map (\<lambda>n. case fs n of None \<Rightarrow> [] | Some c \<Rightarrow> [(n, c)]) names)"

definition gulp_dest :: "string \<Rightarrow> vinyl list \<Rightarrow> vinyl list" where
  "gulp_dest dir files = map (\<lambda>(n, c). (dir @ ''/'' @ n, c)) files"

definition build_prod ::
  "argv \<Rightarrow> (vinyl list \<Rightarrow> vinyl list) \<Rightarrow> (string \<rightharpoonup> string) \<Rightarrow> vinyl list \<times> vinyl list" where
  "build_prod a i18n_replace fs =
     (let htmlStream =
            gulp_dest (DIST_PROD_DIR a)
              (i18n_replace
                 (map (\<lambda>(n, c). (n, html_stamp a c))
                    (gulp_src [''index.html'', ''error.html'', ''upgrade.html'', ''cast.html''] fs)));
          jsStream =
            gulp_dest (DIST_PROD_DIR a)
              (map (\<lambda>(n, c). (n, js_stamp a c)) (gulp_src [''sw.js''] fs))
      in (htmlStream, jsStream))"

subsection \<open>The task \<^verbatim>\<open>sass\<close>\<close>

text \<open>
  \<^verbatim>\<open>
  gulp.task('sass', function() {
    return gulp.src(SASS_FILES, {base: '.'})  // nb. compile all sass files, it's fast
      .pipe($.sass({outputStyle: 'compressed'}).on('error', $.sass.logError))
      .pipe($.autoprefixer({browsers: AUTOPREFIXER_BROWSERS}))
      .pipe(styleModules('_module'))
      .pipe($.changed('.', {hasChanged: $.changed.compareSha1Digest}))
      .pipe(gulp.dest('.'));
  });
  \<close>
  A file on disk has its bytes and its modification time; a file of a stream has its
  path from the base directory, its contents and the modification time of its source.

  \<^verbatim>\<open>$.changed(dest, {hasChanged: ...})\<close> is gulp-changed: it lets a file through when
  the comparator says so against the file of the same relative path under \<^verbatim>\<open>dest\<close>. Both
  of its comparators let a file through whose target does not exist;
  \<^verbatim>\<open>compareLastModifiedTime\<close> (the default) lets it through when the source is newer than
  the target, \<^verbatim>\<open>compareSha1Digest\<close> when the SHA-1 digests of the two contents differ.
  The digest function is a parameter.
\<close>

record disk_file =
  bytes :: string
  modified :: nat

record stream_file =
  relative :: string
  contents :: string
  stat_mtime :: nat

type_synonym disk = "string \<rightharpoonup> disk_file"

datatype comparator = compareLastModifiedTime | compareSha1Digest

definition hasChanged ::
  "comparator \<Rightarrow> (string \<Rightarrow> 'd) \<Rightarrow> disk \<Rightarrow> string \<Rightarrow> stream_file \<Rightarrow> bool" where
  "hasChanged cmp sha1 d targetPath sourceFile =
     (case d targetPath of
        None \<Rightarrow> True
      | Some target \<Rightarrow>
          (case cmp of
             compareLastModifiedTime \<Rightarrow> modified target < stat_mtime sourceFile
           | compareSha1Digest \<Rightarrow> sha1 (contents sourceFile) \<noteq> sha1 (bytes target)))"

definition changed ::
  "string \<Rightarrow> comparator \<Rightarrow> (string \<Rightarrow> 'd) \<Rightarrow> disk \<Rightarrow> stream_file list \<Rightarrow> stream_file list" where
  "changed dir cmp sha1 d files =
     filter (\<lambda>f. hasChanged cmp sha1 d (path_join dir (relative f)) f) files"

text \<open>\<^verbatim>\<open>gulp.dest(dir)\<close> writes each file it receives, at the time \<open>now\<close>.\<close>

fun write_files :: "string \<Rightarrow> nat \<Rightarrow> stream_file list \<Rightarrow> disk \<Rightarrow> disk" where
  "write_files dir now [] d = d"
| "write_files dir now (f # fs) d =
     write_files dir now fs
       (d(path_join dir (relative f) \<mapsto> \<lparr>bytes = contents f, modified = now\<rparr>))"

text \<open>
  The three stages before \<^verbatim>\<open>$.changed\<close> (the Sass compiler, the autoprefixer and
  \<^verbatim>\<open>styleModules\<close> of \<^verbatim>\<open>gulp_scripts/style_modules\<close>) are the parameter \<open>compile\<close>: the
  files they produce from the sources on disk. \<open>sass_emitted\<close> are the files that reach
  \<^verbatim>\<open>gulp.dest\<close>; \<open>sass\<close> is the disk after the task.
\<close>

definition sass_emitted ::
  "(string \<Rightarrow> 'd) \<Rightarrow> (disk \<Rightarrow> stream_file list) \<Rightarrow> disk \<Rightarrow> stream_file list" where
  "sass_emitted sha1 compile d = changed ''.'' compareSha1Digest sha1 d (compile d)"

definition sass ::
  "(string \<Rightarrow> 'd) \<Rightarrow> (disk \<Rightarrow> stream_file list) \<Rightarrow> nat \<Rightarrow> disk \<Rightarrow> disk" where
  "sass sha1 compile now d = write_files ''.'' now (sass_emitted sha1 compile d) d"

text \<open>The same disk and the same files with other modification times.\<close>

definition retime_disk :: "(string \<Rightarrow> nat) \<Rightarrow> disk \<Rightarrow> disk" where
  "retime_disk g d = (\<lambda>p. map_option (\<lambda>t. t\<lparr>modified := g p\<rparr>) (d p))"

definition retime_file :: "(string \<Rightarrow> nat) \<Rightarrow> stream_file \<Rightarrow> stream_file" where
  "retime_file h f = f\<lparr>stat_mtime := h (relative f)\<rparr>"

subsection \<open>The task graph and the \<^verbatim>\<open>dist\<close> sequence\<close>

text \<open>
  The tasks of the build file and, for each, the tasks that \<^verbatim>\<open>gulp.task\<close> names as its
  dependencies (the second argument, where there is one).
\<close>

datatype task =
    Clean | Rm_dist | Sass | Compile_santa_api_service | Compile_scenes | Build_scene_deps
  | Create_dev_scenes | Vulcanize_scenes | Vulcanize_elements | Vulcanize | Build_prod
  | Build_prod_manifest | Copy_assets | Build_contents | Dist | Watch | Serve | Default

fun deps :: "argv \<Rightarrow> task \<Rightarrow> task list" where
  "deps a Vulcanize_scenes = [Sass, Compile_scenes]"
| "deps a Vulcanize_elements = [Sass, Compile_santa_api_service]"
| "deps a Vulcanize = [Vulcanize_scenes, Vulcanize_elements]"
| "deps a Copy_assets = [Vulcanize, Build_prod, Build_prod_manifest]"
| "deps a Build_contents = [Copy_assets]"
| "deps a Serve = [Default, Watch]"
| "deps a Default =
     (if devmode a then [Sass, Build_scene_deps, Create_dev_scenes]
      else [Sass, Compile_santa_api_service, Compile_scenes])"
| "deps a _ = []"

text \<open>
  \<^verbatim>\<open>
  gulp.task('dist', function(callback) {
    require('run-sequence')('rm-dist', 'copy-assets', 'build-contents', callback);
  });
  \<close>
\<close>

definition dist_sequence :: "task list" where
  "dist_sequence = [Rm_dist, Copy_assets, Build_contents]"

text \<open>
  How gulp 3 runs tasks. \<^verbatim>\<open>gulp.start(t)\<close> lists \<open>t\<close> and everything it depends on,
  dependencies first, marks these tasks as not run, and then starts every listed task as
  soon as all its dependencies have finished; tasks run side by side and finish in any
  order. (In \<open>sequence_from\<close>, \<open>n\<close> bounds the depth of the walk through the
  dependencies. The graph of this file is four levels deep and has no cycle, so the
  bound of 18, the number of tasks, is never reached.)
  run-sequence calls \<^verbatim>\<open>gulp.start\<close> for the first task of its list and, when that task
  has finished, for the next one.

  A run is a sequence of events, a task starting or finishing. The state holds the
  tasks of the sequence still to do (the first is the one being run) and the tasks that
  the current \<^verbatim>\<open>gulp.start\<close> has started and finished. \<open>step\<close> is \<open>None\<close> for an event
  that cannot happen in a state.
\<close>

fun sequence_from :: "nat \<Rightarrow> argv \<Rightarrow> task list \<Rightarrow> task list \<Rightarrow> task list" where
  "sequence_from n a [] results = results"
| "sequence_from n a (name # names) results =
     (if name \<in> set results then sequence_from n a names results
      else (case n of
              0 \<Rightarrow> results
            | Suc m \<Rightarrow>
                sequence_from n a names (sequence_from m a (deps a name) results @ [name])))"

definition needed :: "argv \<Rightarrow> task \<Rightarrow> task list" where
  "needed a t = sequence_from 18 a [t] []"

datatype event = Start task | Finish task

record run_state =
  queue :: "task list"
  started :: "task set"
  finished :: "task set"

fun step :: "argv \<Rightarrow> run_state \<Rightarrow> event \<Rightarrow> run_state option" where
  "step a s (Start t) =
     (case queue s of
        [] \<Rightarrow> None
      | g # rest \<Rightarrow>
          if t \<in> set (needed a g) \<and> t \<notin> started s \<and> set (deps a t) \<subseteq> finished s
          then Some (s\<lparr>started := insert t (started s)\<rparr>)
          else None)"
| "step a s (Finish t) =
     (case queue s of
        [] \<Rightarrow> None
      | g # rest \<Rightarrow>
          if t \<in> started s \<and> t \<notin> finished s
          then (if t = g then Some \<lparr>queue = rest, started = {}, finished = {}\<rparr>
                else Some (s\<lparr>finished := insert t (finished s)\<rparr>))
          else None)"

fun run_events :: "argv \<Rightarrow> run_state \<Rightarrow> event list \<Rightarrow> run_state option" where
  "run_events a s [] = Some s"
| "run_events a s (e # es) =
     (case step a s e of
        None \<Rightarrow> None
      | Some s' \<Rightarrow> run_events a s' es)"

definition dist_start :: run_state where
  "dist_start = \<lparr>queue = dist_sequence, started = {}, finished = {}\<rparr>"

text \<open>
  The stages that write output, other than the manifest builder \<^verbatim>\<open>build-contents\<close>:
  the compilers of scenes, styles and the API service, the HTML inliners, the version
  stamper with the manifest of the production directory, and the asset copier.
\<close>

definition stages_before_manifest :: "task list" where
  "stages_before_manifest =
     [Compile_scenes, Sass, Compile_santa_api_service, Vulcanize_scenes, Vulcanize_elements,
      Vulcanize, Build_prod, Build_prod_manifest, Copy_assets]"

subsection \<open>A command line and a scene table to run the build on\<close>

definition demo_argv :: argv where
  "demo_argv = \<lparr>pretty = False, strict = False,
     api_base = ''https://santa-api.appspot.com/'', build = ''v202312251200'',
     baseurl = ''/santa/'', scene = None, port = 3000, devmode = False\<rparr>"

definition demo_table :: scene_table where
  "demo_table =
     [(''airport'', no_fields\<lparr>entryPoint := Some ''app.Belt'', typeSafe := Some False\<rparr>),
      (''codelab'', no_fields\<lparr>entryPoint := Some ''app.FrameWrapper'', isFrame := Some True,
          libraries := Some [''scenes/codelab/js/**/*.js'']\<rparr>),
      (''press'', no_fields)]"

text \<open>A shared elements document with two imports.\<close>

definition demo_elements :: string where
  "demo_elements =
     ''<link rel='' @ [dq] @ ''import'' @ [dq] @ '' href='' @ [dq]
       @ ''../components/polymer/polymer.html'' @ [dq] @ ''>'' @ [CHR 0x0A]
     @ ''<link rel='' @ [dq] @ ''import'' @ [dq] @ '' href='' @ [dq]
       @ ''santa-app.html'' @ [dq] @ ''>'' @ [CHR 0x0A]"

text \<open>
  The service worker's version constant as \<^verbatim>\<open>sw.js\<close> has it, and a source tree with an
  \<^verbatim>\<open>index.html\<close> and an \<^verbatim>\<open>sw.js\<close>.
\<close>

definition version_constant :: string where
  "version_constant = ''const version = '' @ [sq, sq] @ '';''"

definition demo_index_html :: string where
  "demo_index_html =
     ''<html data-version='' @ [dq, dq] @ ''>'' @ [CHR 0x0A]
     @ ''<base href='' @ [dq, dq] @ ''>'' @ [CHR 0x0A]
     @ ''<script>'' @ [CHR 0x0A]
     @ ''window.DEV = true;'' @ [CHR 0x0A]
     @ ''</script>'' @ [CHR 0x0A]"

definition demo_sw_js :: string where
  "demo_sw_js =
     ''const STATIC = '' @ [sq] @ ''./STATIC_PATH/'' @ [sq] @ '';'' @ [CHR 0x0A]
     @ ''const version = '' @ [sq, sq] @ '';'' @ [CHR 0x0A]"

definition demo_fs :: "string \<rightharpoonup> string" where
  "demo_fs = [''index.html'' \<mapsto> demo_index_html, ''sw.js'' \<mapsto> demo_sw_js]"

text \<open>
  Two compiled stylesheets against a disk that holds both: one compiles to the bytes
  already there, the other does not. (For a digest, the length of the text will do
  here: the theorem holds for every function.)
\<close>

definition demo_digest :: "string \<Rightarrow> nat" where
  "demo_digest s = length s"

definition demo_disk :: disk where
  "demo_disk =
     [''sass/main.css'' \<mapsto> \<lparr>bytes = ''a{}'', modified = 5\<rparr>,
      ''sass/other.css'' \<mapsto> \<lparr>bytes = ''b{}'', modified = 5\<rparr>]"

definition demo_compiled :: "stream_file list" where
  "demo_compiled =
     [\<lparr>relative = ''sass/main.css'', contents = ''a{}'', stat_mtime = 9\<rparr>,
      \<lparr>relative = ''sass/other.css'', contents = ''b{c:d}'', stat_mtime = 1\<rparr>]"

text \<open>
  A run of \<^verbatim>\<open>dist\<close> up to the start of \<^verbatim>\<open>build-contents\<close>: \<^verbatim>\<open>rm-dist\<close>, then the tasks
  of \<^verbatim>\<open>copy-assets\<close>, and the same tasks once more for \<^verbatim>\<open>build-contents\<close>.
\<close>

definition demo_copy_assets_run :: "event list" where
  "demo_copy_assets_run =
     [Start Sass, Start Compile_scenes, Start Compile_santa_api_service, Start Build_prod,
      Start Build_prod_manifest, Finish Sass, Finish Compile_scenes, Start Vulcanize_scenes,
      Finish Compile_santa_api_service, Start Vulcanize_elements, Finish Build_prod,
      Finish Build_prod_manifest, Finish Vulcanize_scenes, Finish Vulcanize_elements,
      Start Vulcanize, Finish Vulcanize, Start Copy_assets, Finish Copy_assets]"

definition demo_before_manifest :: "event list" where
  "demo_before_manifest =
     [Start Rm_dist, Finish Rm_dist] @ demo_copy_assets_run @ demo_copy_assets_run"

text \<open>
  What holds in every state of a run of \<^verbatim>\<open>dist\<close>: the tasks still to do are a tail of
  the sequence; a finished task was started; the dependencies of a started task have
  finished; and only tasks that the current target needs are started.
\<close>

definition sched_inv :: "argv \<Rightarrow> run_state \<Rightarrow> bool" where
  "sched_inv a s =
     (queue s \<in> {dist_sequence, [Copy_assets, Build_contents], [Build_contents], []}
      \<and> finished s \<subseteq> started s
      \<and> (\<forall>t\<in>started s. set (deps a t) \<subseteq> finished s)
      \<and> (case queue s of [] \<Rightarrow> started s = {} | g # rest \<Rightarrow> started s \<subseteq> set (needed a g)))"

section \<open>Properties of \<^verbatim>\<open>app.Lights\<close>\<close>

lemma shuffle_index_in_range:
  assumes "0 \<le> r" and "r < 1"
  shows "nat \<lfloor>r * real (i + 1)\<rfloor> \<le> i"
proof -
  have "r * real (i + 1) < real (i + 1)"
    using assms by simp
  then have "\<lfloor>r * real (i + 1)\<rfloor> < int (i + 1)"
    by (simp add: floor_less_iff)
  then show ?thesis by linarith
qed

lemma random_index_le:
  assumes "unit_interval rnd"
  shows "random_index rnd k i \<le> i"
proof -
  from assms have "0 \<le> rnd k" and "rnd k < 1"
    by (simp_all add: unit_interval_def)
  then show ?thesis
    unfolding random_index_def by (rule shuffle_index_in_range)
qed

lemma shuffle_loop_arrays:
  assumes "unit_interval rnd" and "arrays w a = Some xs" and "n < length xs"
  shows "\<exists>ys. arrays (shuffle_loop rnd a n w) a = Some ys \<and> mset ys = mset xs
           \<and> length ys = length xs"
  using assms(2,3)
proof (induction n arbitrary: w xs)
  case 0
  then show ?case by simp
next
  case (Suc n)
  define j where "j = random_index rnd (draws w) (Suc n)"
  define zs where "zs = xs[Suc n := xs ! j, j := xs ! Suc n]"
  define w' where "w' = array_store (array_store (w\<lparr>draws := Suc (draws w)\<rparr>) a (Suc n)
      (array_read (w\<lparr>draws := Suc (draws w)\<rparr>) a j)) a j (array_read (w\<lparr>draws := Suc (draws w)\<rparr>) a (Suc n))"
  have jn: "j \<le> Suc n"
    unfolding j_def using assms(1) by (rule random_index_le)
  have w'a: "arrays w' a = Some zs"
    using Suc.prems(1) by (simp add: w'_def zs_def array_store_def array_read_def)
  have mz: "mset zs = mset xs"
    unfolding zs_def using Suc.prems(2) jn by (intro mset_swap) auto
  have lz: "length zs = length xs"
    by (simp add: zs_def)
  have step: "shuffle_loop rnd a (Suc n) w = shuffle_loop rnd a n w'"
    by (simp add: Let_def w'_def j_def)
  from Suc.IH [OF w'a] Suc.prems(2) lz
  obtain ys where "arrays (shuffle_loop rnd a n w') a = Some ys" "mset ys = mset zs"
      "length ys = length zs"
    by auto
  with mz lz step show ?case by simp
qed

lemma shuffle_loop_frame:
  "b \<noteq> a \<Longrightarrow> arrays (shuffle_loop rnd a n w) b = arrays w b"
  by (induction n arbitrary: w) (simp_all add: Let_def array_store_def)

lemma shuffle_loop_elements:
  "elements (shuffle_loop rnd a n w) = elements w"
  by (induction n arbitrary: w) (simp_all add: Let_def array_store_def)

lemma shuffle_spec:
  assumes "unit_interval rnd" and "arrays w a = Some xs"
  shows "\<exists>w' ys. shuffle rnd a w = Inr (a, w') \<and> arrays w' a = Some ys
           \<and> mset ys = mset xs \<and> length ys = length xs
           \<and> (\<forall>b. b \<noteq> a \<longrightarrow> arrays w' b = arrays w b)
           \<and> elements w' = elements w"
proof (cases "xs = []")
  case True
  with assms(2) show ?thesis by (simp add: shuffle_def)
next
  case False
  then have "length xs - 1 < length xs" by simp
  from shuffle_loop_arrays [OF assms this]
  obtain ys where "arrays (shuffle_loop rnd a (length xs - 1) w) a = Some ys"
      "mset ys = mset xs" "length ys = length xs"
    by blast
  with assms(2) show ?thesis
    by (simp add: shuffle_def shuffle_loop_frame shuffle_loop_elements)
qed


lemma create_lights_ok:
  "\<exists>w'. create_lights n w = Inr ([next_ref w..<next_ref w + n], w')
        \<and> arrays w' = arrays w
        \<and> dom (elements w') = dom (elements w) \<union> {next_ref w..<next_ref w + n}
        \<and> next_ref w' = next_ref w + n"
proof (induction n arbitrary: w)
  case 0
  then show ?case by simp
next
  case (Suc n)
  define w1 where "w1 = snd (createElement w)"
  have l: "createElement w = (next_ref w, w1)"
    by (simp add: w1_def createElement_def)
  have e1: "elements w1 (next_ref w) = Some \<lparr>classList = [], backgroundImage = [], childNodes = []\<rparr>"
    by (simp add: w1_def createElement_def)
  define w2 where "w2 = w1\<lparr>elements := (elements w1)(next_ref w \<mapsto>
      \<lparr>classList = [''scene__light''], backgroundImage = [], childNodes = []\<rparr>)\<rparr>"
  have c: "classList_add (next_ref w) ''scene__light'' w1 = Inr w2"
    using e1 by (simp add: classList_add_def w2_def)
  have n2: "next_ref w2 = Suc (next_ref w)"
    by (simp add: w2_def w1_def createElement_def)
  have a2: "arrays w2 = arrays w"
    by (simp add: w2_def w1_def createElement_def)
  have d2: "dom (elements w2) = insert (next_ref w) (dom (elements w))"
    by (auto simp: w2_def w1_def createElement_def)
  from Suc.IH [of w2] obtain w' where
    r: "create_lights n w2 = Inr ([next_ref w2..<next_ref w2 + n], w')"
      "arrays w' = arrays w2"
      "dom (elements w') = dom (elements w2) \<union> {next_ref w2..<next_ref w2 + n}"
      "next_ref w' = next_ref w2 + n"
    by blast
  have "create_lights (Suc n) w = Inr (next_ref w # [next_ref w2..<next_ref w2 + n], w')"
    using c r(1) l by simp
  moreover have "next_ref w # [next_ref w2..<next_ref w2 + n] = [next_ref w..<next_ref w + Suc n]"
    by (simp add: n2 upt_conv_Cons)
  moreover have "dom (elements w') = dom (elements w) \<union> {next_ref w..<next_ref w + Suc n}"
    using r(3) d2 n2 by auto
  ultimately show ?case
    using r(2,4) a2 n2 by simp
qed

lemma append_lights_ok:
  "el \<in> dom (elements w) \<Longrightarrow>
     \<exists>w'. append_lights el ls w = Inr w' \<and> arrays w' = arrays w
        \<and> dom (elements w') = dom (elements w)"
proof (induction ls arbitrary: w)
  case Nil
  then show ?case by simp
next
  case (Cons light rest)
  from Cons.prems obtain e where e: "elements w el = Some e" by auto
  define w1 where "w1 = w\<lparr>elements := (elements w)(el \<mapsto>
      e\<lparr>childNodes := filter (\<lambda>c. c \<noteq> light) (childNodes e) @ [light]\<rparr>)\<rparr>"
  have a: "appendChild el light w = Inr w1"
    using e by (simp add: appendChild_def w1_def)
  have d: "dom (elements w1) = dom (elements w)"
    using e by (auto simp: w1_def)
  then have "el \<in> dom (elements w1)" using Cons.prems by simp
  from Cons.IH [OF this] obtain w' where
    "append_lights el rest w1 = Inr w'" "arrays w' = arrays w1"
    "dom (elements w') = dom (elements w1)"
    by blast
  with a d show ?case by (simp add: w1_def)
qed

lemma constructor_ok:
  assumes "el \<in> dom (elements w0)"
  shows "\<exists>this w. Lights_constructor el w0 = Inr (this, w) \<and> Lights_inv this w
           \<and> \<not> active this"
proof -
  define w1 where "w1 = snd (new_array (map (\<lambda>v. v + 1) [0..<numberOfTiles]) w0)"
  define t where "t = next_ref w0"
  have n1: "new_array (map (\<lambda>v. v + 1) [0..<numberOfTiles]) w0 = (t, w1)"
    by (simp add: w1_def t_def new_array_def)
  have a1: "arrays w1 t = Some (map (\<lambda>v. v + 1) [0..<numberOfTiles])"
    by (simp add: w1_def t_def new_array_def)
  have e1: "elements w1 = elements w0"
    by (simp add: w1_def new_array_def)
  from create_lights_ok [of numberOfLights w1] obtain w2 where
    c: "create_lights numberOfLights w1 = Inr ([next_ref w1..<next_ref w1 + numberOfLights], w2)"
       "arrays w2 = arrays w1"
       "dom (elements w2) = dom (elements w1) \<union> {next_ref w1..<next_ref w1 + numberOfLights}"
    by blast
  have "el \<in> dom (elements w2)"
    using assms c(3) e1 by simp
  from append_lights_ok [OF this, of "[next_ref w1..<next_ref w1 + numberOfLights]"]
  obtain w3 where
    p: "append_lights el [next_ref w1..<next_ref w1 + numberOfLights] w2 = Inr w3"
       "arrays w3 = arrays w2" "dom (elements w3) = dom (elements w2)"
    by blast
  define this where
    "this = \<lparr>tiles = t, lights = [next_ref w1..<next_ref w1 + numberOfLights], active = False\<rparr>"
  have "Lights_constructor el w0 = Inr (this, w3)"
    using n1 c(1) p(1) by (simp add: Lights_constructor_def this_def)
  moreover have "map (\<lambda>v. v + 1) [0..<numberOfTiles] = tiles_1_to_9"
    by (simp add: numberOfTiles_def tiles_1_to_9_def upt_rec)
  then have "Lights_inv this w3"
    using a1 c(2,3) p(2,3) by (auto simp: Lights_inv_def this_def numberOfLights_def)
  moreover have "\<not> active this" by (simp add: this_def)
  ultimately show ?thesis by blast
qed


lemma paint_lights_ok:
  assumes "arrays w (tiles this) = Some xs" and "set ls \<subseteq> dom (elements w)" and "distinct ls"
  shows "\<exists>w'. paint_lights this ls index w = Inr w' \<and> arrays w' = arrays w
           \<and> dom (elements w') = dom (elements w)
           \<and> map (\<lambda>r. map_option backgroundImage (elements w' r)) ls
               = map (\<lambda>k. Some (disco_url (tile_text xs k))) [index..<index + length ls]
           \<and> (\<forall>r. r \<notin> set ls \<longrightarrow> elements w' r = elements w r)"
  using assms
proof (induction ls arbitrary: index w)
  case Nil
  then show ?case by simp
next
  case (Cons light rest)
  from Cons.prems(2) obtain e where e: "elements w light = Some e" by auto
  define w1 where "w1 = w\<lparr>elements := (elements w)(light \<mapsto>
      e\<lparr>backgroundImage := disco_url (tile_text xs index)\<rparr>)\<rparr>"
  have st: "paint_lights this (light # rest) index w = paint_lights this rest (Suc index) w1"
    using e Cons.prems(1) by (simp add: w1_def)
  have a1: "arrays w1 (tiles this) = Some xs"
    using Cons.prems(1) by (simp add: w1_def)
  have d1: "dom (elements w1) = dom (elements w)"
    using e by (auto simp: w1_def)
  have s1: "set rest \<subseteq> dom (elements w1)"
    using Cons.prems(2) d1 by simp
  have "distinct rest" using Cons.prems(3) by simp
  from Cons.IH [OF a1 s1 this, of "Suc index"] obtain w' where
    r: "paint_lights this rest (Suc index) w1 = Inr w'" "arrays w' = arrays w1"
       "dom (elements w') = dom (elements w1)"
       "map (\<lambda>r. map_option backgroundImage (elements w' r)) rest
          = map (\<lambda>k. Some (disco_url (tile_text xs k))) [Suc index..<Suc index + length rest]"
       "\<forall>r. r \<notin> set rest \<longrightarrow> elements w' r = elements w1 r"
    by blast
  have "light \<notin> set rest" using Cons.prems(3) by simp
  with r(5) have "elements w' light = elements w1 light" by blast
  then have h: "map_option backgroundImage (elements w' light) = Some (disco_url (tile_text xs index))"
    by (simp add: w1_def)
  have "index < index + length (light # rest)" by simp
  from upt_conv_Cons [OF this]
  have "[index..<index + length (light # rest)] = index # [Suc index..<Suc index + length rest]"
    by simp
  then have "map (\<lambda>r. map_option backgroundImage (elements w' r)) (light # rest)
          = map (\<lambda>k. Some (disco_url (tile_text xs k))) [index..<index + length (light # rest)]"
    using h r(4) by simp
  moreover have "\<forall>r. r \<notin> set (light # rest) \<longrightarrow> elements w' r = elements w r"
    using r(5) by (simp add: w1_def)
  moreover have "arrays w' = arrays w"
    using r(2) by (simp add: w1_def)
  ultimately show ?case
    using st r(1,3) d1 by simp
qed

lemma perm_1_to_9:
  assumes "mset ys = mset tiles_1_to_9"
  shows "length ys = 9" and "distinct ys" and "set ys = {1..9}"
proof -
  have "size (mset ys) = size (mset tiles_1_to_9)" using assms by simp
  then show "length ys = 9" by (simp add: tiles_1_to_9_def)
  have "distinct tiles_1_to_9" by (simp add: tiles_1_to_9_def)
  then show "distinct ys" using assms mset_eq_imp_distinct_iff by blast
  have "set ys = set tiles_1_to_9" using assms by (rule mset_eq_setD)
  also have "\<dots> = {1..9}" by (auto simp: tiles_1_to_9_def)
  finally show "set ys = {1..9}" .
qed

lemma onBeat_active:
  assumes "unit_interval rnd" and "Lights_inv this w" and "active this"
  shows "\<exists>w' ys. onBeat rnd beat bpm (this, w) = Inr (this, w')
           \<and> Lights_inv this w'
           \<and> arrays w' (tiles this) = Some ys \<and> mset ys = mset tiles_1_to_9
           \<and> light_images this w'
               = map (\<lambda>k. Some (disco_url (to_decimal (ys ! k)))) [0..<4]"
proof -
  from assms(2) obtain xs where
    xs: "arrays w (tiles this) = Some xs" "mset xs = mset tiles_1_to_9"
    and ls: "length (lights this) = 4" "distinct (lights this)"
      "set (lights this) \<subseteq> dom (elements w)"
    by (auto simp: Lights_inv_def)
  from shuffle_spec [OF assms(1) xs(1)] obtain w1 ys where
    sh: "shuffle rnd (tiles this) w = Inr (tiles this, w1)" "arrays w1 (tiles this) = Some ys"
      "mset ys = mset xs" "elements w1 = elements w"
    by blast
  have s1: "set (lights this) \<subseteq> dom (elements w1)"
    using ls(3) sh(4) by simp
  from paint_lights_ok [OF sh(2) s1 ls(2), of 0] obtain w2 where
    p: "paint_lights this (lights this) 0 w1 = Inr w2" "arrays w2 = arrays w1"
       "dom (elements w2) = dom (elements w1)"
       "map (\<lambda>r. map_option backgroundImage (elements w2 r)) (lights this)
          = map (\<lambda>k. Some (disco_url (tile_text ys k))) [0..<0 + length (lights this)]"
    by blast
  have my: "mset ys = mset tiles_1_to_9" using sh(3) xs(2) by simp
  then have ly: "length ys = 9" by (rule perm_1_to_9)
  have "map (\<lambda>k. Some (disco_url (tile_text ys k))) [0..<4]
      = map (\<lambda>k. Some (disco_url (to_decimal (ys ! k)))) [0..<4]"
    using ly by (simp add: tile_text_def)
  with p(4) ls(1) have im: "light_images this w2
      = map (\<lambda>k. Some (disco_url (to_decimal (ys ! k)))) [0..<4]"
    by (simp add: light_images_def)
  have "onBeat rnd beat bpm (this, w) = Inr (this, w2)"
    using assms(3) sh(1) p(1) by (simp add: onBeat_def)
  moreover have "Lights_inv this w2"
    using p(2,3) sh(2,4) my ls by (simp add: Lights_inv_def)
  ultimately show ?thesis
    using p(2) sh(2) my im by simp
qed

lemma do_call_inv:
  assumes "unit_interval rnd" and "Lights_inv this w"
  shows "\<exists>this' w'. do_call rnd c (this, w) = Inr (this', w') \<and> Lights_inv this' w'"
proof (cases c)
  case (SetLevel lv)
  with assms(2) show ?thesis by (simp add: setLevel_def Lights_inv_def)
next
  case (OnBeat beat bpm)
  show ?thesis
  proof (cases "active this")
    case True
    from onBeat_active [OF assms this, of beat bpm] OnBeat show ?thesis by auto
  next
    case False
    with assms(2) OnBeat show ?thesis by (simp add: onBeat_def)
  qed
qed

lemma run_calls_inv:
  assumes "unit_interval rnd" and "Lights_inv this w"
  shows "\<exists>this' w'. run_calls rnd cs (this, w) = Inr (this', w') \<and> Lights_inv this' w'"
  using assms(2)
proof (induction cs arbitrary: this w)
  case Nil
  then show ?case by simp
next
  case (Cons c cs)
  from do_call_inv [OF assms(1) Cons.prems, of c] obtain this1 w1 where
    "do_call rnd c (this, w) = Inr (this1, w1)" "Lights_inv this1 w1"
    by blast
  with Cons.IH [of this1 w1] show ?case by simp
qed

lemma to_decimal_digit_inj:
  assumes "n < 10" and "m < 10" and "to_decimal n = to_decimal m"
  shows "n = m"
proof -
  have d: "distinct ''0123456789''" by simp
  have "''0123456789'' ! n = ''0123456789'' ! m"
    using assms by (simp add: to_decimal.simps)
  with d assms(1,2) show ?thesis
    by (simp add: nth_eq_iff_index_eq)
qed

lemma disco_url_inj: "disco_url s = disco_url t \<Longrightarrow> s = t"
  by (simp add: disco_url_def)

lemma images_distinct:
  assumes "mset ys = mset tiles_1_to_9"
  shows "distinct (map (\<lambda>k. Some (disco_url (to_decimal (ys ! k)))) [0..<4])"
proof -
  note p = perm_1_to_9 [OF assms]
  have "inj_on (\<lambda>k. Some (disco_url (to_decimal (ys ! k)))) {0..<4}"
  proof (rule inj_onI)
    fix i j
    assume i: "i \<in> {0..<4}" and j: "j \<in> {0..<4}"
      and eq: "Some (disco_url (to_decimal (ys ! i))) = Some (disco_url (to_decimal (ys ! j)))"
    have "ys ! i \<in> set ys" "ys ! j \<in> set ys"
      using i j p(1) by simp_all
    then have "ys ! i < 10" "ys ! j < 10"
      using p(3) by simp_all
    moreover have "to_decimal (ys ! i) = to_decimal (ys ! j)"
      using eq by (simp add: disco_url_inj)
    ultimately have "ys ! i = ys ! j" by (rule to_decimal_digit_inj)
    then show "i = j"
      using p(1,2) i j by (simp add: nth_eq_iff_index_eq)
  qed
  then show ?thesis by (simp add: distinct_map)
qed


text \<open>
  Claim C8. For every array in the store and every sequence of values of
  \<^verbatim>\<open>Math.random()\<close> in \<open>[0, 1)\<close>, \<^verbatim>\<open>shuffle_\<close> returns, without an error, the very
  reference it was given; the array at that address holds the same elements with the
  same multiplicities as before (so its length is unchanged too), and no other array
  and no element of the store is touched.
\<close>

theorem shuffle_permutes_in_place:
  assumes "unit_interval rnd" and "arrays w a = Some xs"
  shows "\<exists>w' ys. shuffle rnd a w = Inr (a, w') \<and> arrays w' a = Some ys
           \<and> mset ys = mset xs \<and> length ys = length xs
           \<and> (\<forall>b. b \<noteq> a \<longrightarrow> arrays w' b = arrays w b)
           \<and> elements w' = elements w"
  using assms by (rule shuffle_spec)

theorem shuffle_permutes_in_place_witness:
  "unit_interval (\<lambda>k. 1 / 2)
   \<and> arrays (demo_world\<lparr>arrays := [7 \<mapsto> [10, 20, 30 :: nat]]\<rparr>) 7 = Some [10, 20, 30]
   \<and> shuffle (\<lambda>k. 1 / 2) 7 (demo_world\<lparr>arrays := [7 \<mapsto> [10, 20, 30 :: nat]]\<rparr>)
       = Inr (7, demo_world\<lparr>arrays := [7 \<mapsto> [10, 30, 20]], draws := 2\<rparr>)
   \<and> (\<exists>w' ys. shuffle (\<lambda>k. 1 / 2) 7 (demo_world\<lparr>arrays := [7 \<mapsto> [10, 20, 30 :: nat]]\<rparr>)
                  = Inr (7, w')
         \<and> arrays w' 7 = Some ys \<and> mset ys = mset [10, 20, 30] \<and> length ys = length [10, 20, 30 :: nat]
         \<and> (\<forall>b. b \<noteq> 7 \<longrightarrow> arrays w' b = arrays (demo_world\<lparr>arrays := [7 \<mapsto> [10, 20, 30 :: nat]]\<rparr>) b)
         \<and> elements w' = elements (demo_world\<lparr>arrays := [7 \<mapsto> [10, 20, 30 :: nat]]\<rparr>))"
proof -
  have u: "unit_interval (\<lambda>k. 1 / 2)"
    by (simp add: unit_interval_def)
  have a: "arrays (demo_world\<lparr>arrays := [7 \<mapsto> [10, 20, 30 :: nat]]\<rparr>) 7 = Some [10, 20, 30]"
    by (simp add: demo_world_def)
  have s: "shuffle (\<lambda>k. 1 / 2) 7 (demo_world\<lparr>arrays := [7 \<mapsto> [10, 20, 30 :: nat]]\<rparr>)
       = Inr (7, demo_world\<lparr>arrays := [7 \<mapsto> [10, 30, 20]], draws := 2\<rparr>)"
    by (simp add: shuffle_def demo_world_def random_index_def array_read_def array_store_def
        eval_nat_numeral)
  from u a s shuffle_permutes_in_place [OF u a] show ?thesis
    by blast
qed

text \<open>
  Claim C9. While the flag \<^verbatim>\<open>active\<close> is false, \<^verbatim>\<open>onBeat\<close> returns the instance and
  the whole store as they were: the tiles, the lights and the style of every element
  (and \<^verbatim>\<open>Math.random()\<close> is not called). \<^verbatim>\<open>setLevel\<close> with a level whose stage is
  not \<^verbatim>\<open>'stage2'\<close> leaves the flag false.
\<close>

theorem onBeat_inactive_changes_nothing:
  "(\<not> active this \<longrightarrow> onBeat rnd beat bpm (this, w) = Inr (this, w))
   \<and> (stage lv \<noteq> ''stage2'' \<longrightarrow>
        \<not> active (setLevel lv this)
        \<and> onBeat rnd beat bpm (setLevel lv this, w) = Inr (setLevel lv this, w))"
  by (simp add: onBeat_def setLevel_def)

theorem onBeat_inactive_changes_nothing_witness:
  "stage \<lparr>stage = ''stage1''\<rparr> \<noteq> ''stage2''
   \<and> \<not> active (setLevel \<lparr>stage = ''stage1''\<rparr> demo_lights)
   \<and> onBeat (\<lambda>k. 1 / 2) 3 120 (setLevel \<lparr>stage = ''stage1''\<rparr> demo_lights, demo_world)
       = Inr (demo_lights\<lparr>active := False\<rparr>, demo_world)"
  using onBeat_inactive_changes_nothing
    [of demo_lights "\<lambda>k. 1 / 2" 3 120 demo_world "\<lparr>stage = ''stage1''\<rparr>"]
  by (simp add: setLevel_def)

text \<open>
  Claim C10. Take an instance built by the constructor on an element of the page, and
  any sequence of \<^verbatim>\<open>setLevel\<close> and \<^verbatim>\<open>onBeat\<close> calls, with \<^verbatim>\<open>Math.random()\<close> in
  \<open>[0, 1)\<close>. The calls all return, and afterwards the tiles are a permutation of 1 to
  9. If the instance is active then, one more \<^verbatim>\<open>onBeat\<close> returns too, leaves the
  tiles a permutation of 1 to 9, and gives light number \<open>k\<close> (of four) the image
  \<^verbatim>\<open>url(img/stages/disco_N.svg)\<close> with \<open>N\<close> the tile at index \<open>k\<close>: four different
  numbers between 1 and 9, and four different images.
\<close>

theorem tiles_stay_a_permutation:
  assumes "unit_interval rnd" and "el \<in> dom (elements w0)"
  shows "\<exists>this0 w1. Lights_constructor el w0 = Inr (this0, w1)
     \<and> (\<forall>calls. \<exists>this w xs. run_calls rnd calls (this0, w1) = Inr (this, w)
           \<and> arrays w (tiles this) = Some xs \<and> mset xs = mset tiles_1_to_9
           \<and> (active this \<longrightarrow>
                (\<forall>beat bpm. \<exists>w' ys. onBeat rnd beat bpm (this, w) = Inr (this, w')
                    \<and> arrays w' (tiles this) = Some ys \<and> mset ys = mset tiles_1_to_9
                    \<and> light_images this w'
                        = map (\<lambda>k. Some (disco_url (to_decimal (ys ! k)))) [0..<4]
                    \<and> distinct (take 4 ys) \<and> set (take 4 ys) \<subseteq> {1..9}
                    \<and> distinct (light_images this w'))))"
proof -
  from constructor_ok [OF assms(2)] obtain this0 w1 where
    c: "Lights_constructor el w0 = Inr (this0, w1)" "Lights_inv this0 w1"
    by blast
  have "\<exists>this w xs. run_calls rnd calls (this0, w1) = Inr (this, w)
           \<and> arrays w (tiles this) = Some xs \<and> mset xs = mset tiles_1_to_9
           \<and> (active this \<longrightarrow>
                (\<forall>beat bpm. \<exists>w' ys. onBeat rnd beat bpm (this, w) = Inr (this, w')
                    \<and> arrays w' (tiles this) = Some ys \<and> mset ys = mset tiles_1_to_9
                    \<and> light_images this w'
                        = map (\<lambda>k. Some (disco_url (to_decimal (ys ! k)))) [0..<4]
                    \<and> distinct (take 4 ys) \<and> set (take 4 ys) \<subseteq> {1..9}
                    \<and> distinct (light_images this w')))" for calls
  proof -
    from run_calls_inv [OF assms(1) c(2), of calls] obtain this w where
      r: "run_calls rnd calls (this0, w1) = Inr (this, w)" "Lights_inv this w"
      by blast
    from r(2) obtain xs where
      xs: "arrays w (tiles this) = Some xs" "mset xs = mset tiles_1_to_9"
      by (auto simp: Lights_inv_def)
    have "\<exists>w' ys. onBeat rnd beat bpm (this, w) = Inr (this, w')
                    \<and> arrays w' (tiles this) = Some ys \<and> mset ys = mset tiles_1_to_9
                    \<and> light_images this w'
                        = map (\<lambda>k. Some (disco_url (to_decimal (ys ! k)))) [0..<4]
                    \<and> distinct (take 4 ys) \<and> set (take 4 ys) \<subseteq> {1..9}
                    \<and> distinct (light_images this w')" if "active this" for beat bpm
    proof -
      from onBeat_active [OF assms(1) r(2) that, of beat bpm] obtain w' ys where
        b: "onBeat rnd beat bpm (this, w) = Inr (this, w')"
           "arrays w' (tiles this) = Some ys" "mset ys = mset tiles_1_to_9"
           "light_images this w' = map (\<lambda>k. Some (disco_url (to_decimal (ys ! k)))) [0..<4]"
        by blast
      note p = perm_1_to_9 [OF b(3)]
      have "distinct (take 4 ys)" using p(2) by simp
      moreover have "set (take 4 ys) \<subseteq> {1..9}"
        using set_take_subset [of 4 ys] p(3) by simp
      moreover have "distinct (light_images this w')"
        using images_distinct [OF b(3)] b(4) by simp
      ultimately show ?thesis using b by blast
    qed
    with r(1) xs show ?thesis by blast
  qed
  with c(1) show ?thesis by blast
qed

theorem tiles_stay_a_permutation_witness:
  "unit_interval (\<lambda>k. 1 / 2) \<and> 0 \<in> dom (elements demo_world)
   \<and> (\<exists>this0 w1. Lights_constructor 0 demo_world = Inr (this0, w1)
     \<and> (\<forall>calls. \<exists>this w xs. run_calls (\<lambda>k. 1 / 2) calls (this0, w1) = Inr (this, w)
           \<and> arrays w (tiles this) = Some xs \<and> mset xs = mset tiles_1_to_9
           \<and> (active this \<longrightarrow>
                (\<forall>beat bpm. \<exists>w' ys. onBeat (\<lambda>k. 1 / 2) beat bpm (this, w) = Inr (this, w')
                    \<and> arrays w' (tiles this) = Some ys \<and> mset ys = mset tiles_1_to_9
                    \<and> light_images this w'
                        = map (\<lambda>k. Some (disco_url (to_decimal (ys ! k)))) [0..<4]
                    \<and> distinct (take 4 ys) \<and> set (take 4 ys) \<subseteq> {1..9}
                    \<and> distinct (light_images this w')))))
   \<and> demo_after [SetLevel \<lparr>stage = ''stage2''\<rparr>, OnBeat 0 120]
       = Inr (True, Some [1, 6, 2, 8, 3, 7, 4, 9, 5],
           [Some ''url(img/stages/disco_1.svg)'', Some ''url(img/stages/disco_6.svg)'',
            Some ''url(img/stages/disco_2.svg)'', Some ''url(img/stages/disco_8.svg)''])"
proof -
  have u: "unit_interval (\<lambda>k. 1 / 2)"
    by (simp add: unit_interval_def)
  have d: "0 \<in> dom (elements demo_world)"
    by (simp add: demo_world_def)
  have r: "demo_after [SetLevel \<lparr>stage = ''stage2''\<rparr>, OnBeat 0 120]
       = Inr (True, Some [1, 6, 2, 8, 3, 7, 4, 9, 5],
           [Some ''url(img/stages/disco_1.svg)'', Some ''url(img/stages/disco_6.svg)'',
            Some ''url(img/stages/disco_2.svg)'', Some ''url(img/stages/disco_8.svg)''])"
    by code_simp
  from u d r tiles_stay_a_permutation [OF u d] show ?thesis
    by (intro conjI)
qed

section \<open>Properties of the build file\<close>

subsection \<open>Scene compilation\<close>






subsection \<open>HTML inlining\<close>

text \<open>
  Claim C2. For every scene HTML file that \<^verbatim>\<open>vulcanize-scenes\<close> processes: when the
  configuration of the file's scene has \<^verbatim>\<open>isFrame\<close> set, the list \<^verbatim>\<open>stripExcludes\<close> handed
  to the inliner is empty; when the scene has no configuration, or one without the frame
  flag, \<^verbatim>\<open>stripExcludes\<close> is the list of all the imports parsed from
  \<^verbatim>\<open>elements/elements_en.html\<close>, so each of them is asked to be stripped.
\<close>

theorem shared_imports_stripped_unless_framed:
  "(config_lookup tbl (scene_of rel) = Some c \<and> isFrame c = Some True \<longrightarrow>
      stripExcludes (vulcanize_scene tbl el rel) = [])
   \<and> ((config_lookup tbl (scene_of rel) = None
        \<or> (config_lookup tbl (scene_of rel) = Some c \<and> isFrame c \<noteq> Some True)) \<longrightarrow>
        stripExcludes (vulcanize_scene tbl el rel) = elementsImports el
        \<and> set (elementsImports el) \<subseteq> set (stripExcludes (vulcanize_scene tbl el rel)))"
  by (auto simp: vulcanize_scene_def scene_of_def Let_def no_fields_def)

lemma demo_scene_names:
  "scene_of ''scenes/codelab/codelab-scene_en.html'' = ''codelab''"
  "scene_of ''scenes/airport/airport-scene_en.html'' = ''airport''"
  "scene_of ''scenes/postcardly/snowflake-maker/turtle.html'' = ''snowflake-maker''"
  by (simp_all add: scene_of_def path_dirname_def path_basename_def)

lemma demo_elements_imports:
  "elementsImports demo_elements = [''components/polymer/polymer.html'', ''elements/santa-app.html'']"
  by code_simp

theorem shared_imports_stripped_unless_framed_witness:
  "config_lookup demo_table (scene_of ''scenes/codelab/codelab-scene_en.html'')
      = Some (no_fields\<lparr>entryPoint := Some ''app.FrameWrapper'', isFrame := Some True,
          libraries := Some [''scenes/codelab/js/**/*.js'']\<rparr>)
   \<and> stripExcludes (vulcanize_scene demo_table demo_elements ''scenes/codelab/codelab-scene_en.html'') = []
   \<and> config_lookup demo_table (scene_of ''scenes/postcardly/snowflake-maker/turtle.html'') = None
   \<and> stripExcludes (vulcanize_scene demo_table demo_elements
         ''scenes/postcardly/snowflake-maker/turtle.html'')
       = [''components/polymer/polymer.html'', ''elements/santa-app.html'']
   \<and> config_lookup demo_table (scene_of ''scenes/airport/airport-scene_en.html'')
       = Some (no_fields\<lparr>entryPoint := Some ''app.Belt'', typeSafe := Some False\<rparr>)
   \<and> stripExcludes (vulcanize_scene demo_table demo_elements ''scenes/airport/airport-scene_en.html'')
       = [''components/polymer/polymer.html'', ''elements/santa-app.html'']"
proof -
  have c: "config_lookup demo_table ''codelab''
      = Some (no_fields\<lparr>entryPoint := Some ''app.FrameWrapper'', isFrame := Some True,
          libraries := Some [''scenes/codelab/js/**/*.js'']\<rparr>)"
    by (simp add: config_lookup_def demo_table_def)
  have s: "config_lookup demo_table ''snowflake-maker'' = None"
    by (simp add: config_lookup_def demo_table_def Object_prototype_names_def)
  have a: "config_lookup demo_table ''airport''
       = Some (no_fields\<lparr>entryPoint := Some ''app.Belt'', typeSafe := Some False\<rparr>)"
    by (simp add: config_lookup_def demo_table_def)
  from shared_imports_stripped_unless_framed
      [where tbl = demo_table and el = demo_elements
         and rel = "''scenes/codelab/codelab-scene_en.html''"
         and c = "no_fields\<lparr>entryPoint := Some ''app.FrameWrapper'', isFrame := Some True,
          libraries := Some [''scenes/codelab/js/**/*.js'']\<rparr>"]
    shared_imports_stripped_unless_framed
      [where tbl = demo_table and el = demo_elements
         and rel = "''scenes/postcardly/snowflake-maker/turtle.html''"]
    shared_imports_stripped_unless_framed
      [where tbl = demo_table and el = demo_elements
         and rel = "''scenes/airport/airport-scene_en.html''"
         and c = "no_fields\<lparr>entryPoint := Some ''app.Belt'', typeSafe := Some False\<rparr>"]
    c s a
  show ?thesis
    by (simp add: demo_scene_names demo_elements_imports no_fields_def)
qed

subsection \<open>Version stamping\<close>

lemma split_from_not_Nil: "split_from sep cur s \<noteq> []"
  by (induction s arbitrary: cur rule: length_induct) (case_tac xs; simp)

lemma js_join_Cons: "ys \<noteq> [] \<Longrightarrow> js_join sep (x # ys) = x @ sep @ js_join sep ys"
  by (cases ys) simp_all

lemma split_from_first:
  assumes "sep \<noteq> []"
    and "\<forall>k<length pre. \<not> prefix sep (drop k (pre @ sep @ post))"
  shows "split_from sep cur (pre @ sep @ post) = (cur @ pre) # split_from sep [] post"
  using assms(2)
proof (induction pre arbitrary: cur)
  case Nil
  from assms(1) obtain c cs where sep: "sep = c # cs" by (cases sep) auto
  then show ?case by simp
next
  case (Cons x pre)
  from Cons.prems have "\<not> prefix sep (drop 0 ((x # pre) @ sep @ post))"
    by (metis length_greater_0_conv list.distinct(1))
  then have n: "\<not> prefix sep (x # pre @ sep @ post)" by simp
  have "\<forall>k<length pre. \<not> prefix sep (drop k (pre @ sep @ post))"
  proof (intro allI impI)
    fix k assume "k < length pre"
    then have "Suc k < length (x # pre)" by simp
    with Cons.prems have "\<not> prefix sep (drop (Suc k) ((x # pre) @ sep @ post))" by blast
    then show "\<not> prefix sep (drop k (pre @ sep @ post))" by simp
  qed
  from Cons.IH [OF this, of "cur @ [x]"] n show ?case by simp
qed

lemma gulp_replace_first:
  assumes "sep \<noteq> []"
    and "\<forall>k<length pre. \<not> prefix sep (drop k (pre @ sep @ post))"
  shows "gulp_replace sep rep (pre @ sep @ post) = pre @ rep @ gulp_replace sep rep post"
  using assms split_from_first [OF assms, of "[]"]
  by (simp add: gulp_replace_def js_split_def js_join_Cons split_from_not_Nil)

lemma replace_version_first:
  assumes "\<forall>k<length pre. match_version (drop k (pre @ s)) = None"
    and "match_version s = Some rest" and "s \<noteq> []"
  shows "replace_version tpl front (pre @ s)
           = (front @ pre)
             @ get_substitution (take (length s - length rest) s) (front @ pre) rest tpl @ rest"
  using assms(1)
proof (induction pre arbitrary: front)
  case Nil
  from assms(3) obtain c cs where "s = c # cs" by (cases s) auto
  with assms(2) show ?case by simp
next
  case (Cons x pre)
  from Cons.prems have "match_version (drop 0 ((x # pre) @ s)) = None"
    by (metis length_greater_0_conv list.distinct(1))
  then have n: "match_version (x # pre @ s) = None" by simp
  have "\<forall>k<length pre. match_version (drop k (pre @ s)) = None"
  proof (intro allI impI)
    fix k assume "k < length pre"
    then have "Suc k < length (x # pre)" by simp
    with Cons.prems have "match_version (drop (Suc k) ((x # pre) @ s)) = None" by blast
    then show "match_version (drop k (pre @ s)) = None" by simp
  qed
  from Cons.IH [OF this, of "front @ [x]"] n show ?case by simp
qed

lemma match_version_constant: "match_version (version_constant @ post) = Some post"
  by (simp add: match_version_def version_constant_def after_prefix_def opt_space_def sq_def)

lemma static_url_santa:
  assumes "build a = ''v202312251200''" and "baseurl a = ''/santa/''" and "\<not> pretty a"
  shows "STATIC_URL a = ''/santa/v202312251200/''"
  using assms by (simp add: STATIC_URL_def STATIC_BASE_URL_def)

text \<open>
  Claim C1. For a build with the tag \<^verbatim>\<open>v202312251200\<close>, the base URL \<^verbatim>\<open>/santa/\<close> and
  \<^verbatim>\<open>pretty\<close> false: the static URL is \<^verbatim>\<open>/santa/v202312251200/\<close>; the base-href step
  turns the first \<^verbatim>\<open><base href="">\<close> of a text into exactly
  \<^verbatim>\<open><base href="/santa/v202312251200/">\<close>, leaves the text before it alone and goes on
  in the same way after it; the version step of \<^verbatim>\<open>sw.js\<close> turns the first
  \<^verbatim>\<open>const version = '';\<close> into exactly \<^verbatim>\<open>const version = 'v202312251200';\<close> and leaves
  the rest of the text alone; and \<^verbatim>\<open>build-prod\<close> applies the first step to each of the
  four top-level HTML files (after the removal of the \<^verbatim>\<open>window.DEV\<close> line, and before
  the step for \<^verbatim>\<open>data-version\<close> and the translation), and the second to \<^verbatim>\<open>sw.js\<close>
  (after the step for \<^verbatim>\<open>./STATIC_PATH/\<close>).
\<close>

theorem version_stamped_for_santa_build:
  assumes "build a = ''v202312251200''" and "baseurl a = ''/santa/''" and "\<not> pretty a"
  shows "STATIC_URL a = ''/santa/v202312251200/''
    \<and> ((\<forall>k<length pre. \<not> prefix base_href_placeholder (drop k (pre @ base_href_placeholder @ post)))
         \<longrightarrow> stamp_base_href a (pre @ base_href_placeholder @ post)
               = pre @ (''<base href='' @ [dq] @ ''/santa/v202312251200/'' @ [dq] @ ''>'')
                 @ stamp_base_href a post)
    \<and> ((\<forall>k<length pre. match_version (drop k (pre @ version_constant @ post)) = None)
         \<longrightarrow> stamp_sw_version a (pre @ version_constant @ post)
               = pre @ (''const version = '' @ [sq] @ ''v202312251200'' @ [sq] @ '';'') @ post)
    \<and> build_prod a i18n_replace fs
        = (gulp_dest ''dist_prod''
             (i18n_replace
                (map (\<lambda>(n, c). (n, stamp_data_version a (stamp_base_href a (strip_dev c))))
                   (gulp_src [''index.html'', ''error.html'', ''upgrade.html'', ''cast.html''] fs))),
           gulp_dest ''dist_prod''
             (map (\<lambda>(n, c). (n, stamp_sw_version a (stamp_static_path a c)))
                (gulp_src [''sw.js''] fs)))"
proof (intro conjI impI)
  show "build_prod a i18n_replace fs
        = (gulp_dest ''dist_prod''
             (i18n_replace
                (map (\<lambda>(n, c). (n, stamp_data_version a (stamp_base_href a (strip_dev c))))
                   (gulp_src [''index.html'', ''error.html'', ''upgrade.html'', ''cast.html''] fs))),
           gulp_dest ''dist_prod''
             (map (\<lambda>(n, c). (n, stamp_sw_version a (stamp_static_path a c)))
                (gulp_src [''sw.js''] fs)))"
    using assms(3)
    by (simp add: build_prod_def html_stamp_def js_stamp_def DIST_PROD_DIR_def PROD_DIR_def)
  show u: "STATIC_URL a = ''/santa/v202312251200/''"
    using assms by (rule static_url_santa)
  {
    assume h: "\<forall>k<length pre. \<not> prefix base_href_placeholder (drop k (pre @ base_href_placeholder @ post))"
    have ne: "base_href_placeholder \<noteq> []"
      by (simp add: base_href_placeholder_def)
    from gulp_replace_first [OF ne h] u
    show "stamp_base_href a (pre @ base_href_placeholder @ post)
               = pre @ (''<base href='' @ [dq] @ ''/santa/v202312251200/'' @ [dq] @ ''>'')
                 @ stamp_base_href a post"
      by (simp add: stamp_base_href_def)
  }
  {
    assume h: "\<forall>k<length pre. match_version (drop k (pre @ version_constant @ post)) = None"
    have ne: "version_constant @ post \<noteq> []"
      by (simp add: version_constant_def)
    from h have h': "\<forall>k<length pre. match_version (drop k (pre @ (version_constant @ post))) = None"
      by simp
    from replace_version_first [OF h' match_version_constant ne, of _ "[]"]
    show "stamp_sw_version a (pre @ version_constant @ post)
               = pre @ (''const version = '' @ [sq] @ ''v202312251200'' @ [sq] @ '';'') @ post"
      using assms(1) by (simp add: stamp_sw_version_def STATIC_VERSION_def sq_def)
  }
qed

lemma demo_build_prod:
  "build_prod demo_argv id demo_fs
     = ([(''dist_prod/index.html'',
          ''<html data-version='' @ [dq] @ ''v202312251200'' @ [dq] @ ''>'' @ [CHR 0x0A]
          @ ''<base href='' @ [dq] @ ''/santa/v202312251200/'' @ [dq] @ ''>'' @ [CHR 0x0A]
          @ ''<script>'' @ [CHR 0x0A]
          @ [CHR 0x0A]
          @ ''</script>'' @ [CHR 0x0A])],
        [(''dist_prod/sw.js'',
          ''const STATIC = '' @ [sq] @ ''/santa/v202312251200/'' @ [sq] @ '';'' @ [CHR 0x0A]
          @ ''const version = '' @ [sq] @ ''v202312251200'' @ [sq] @ '';'' @ [CHR 0x0A])])"
  by code_simp

lemma demo_no_earlier_placeholder:
  "\<forall>k<length ''<head>''. \<not> prefix base_href_placeholder
       (drop k (''<head>'' @ base_href_placeholder @ ''</head>''))"
  by (simp add: base_href_placeholder_def dq_def less_Suc_eq eval_nat_numeral)

lemma demo_no_earlier_version:
  "\<forall>k<length ''// sw''. match_version (drop k (''// sw'' @ version_constant @ ''// end'')) = None"
  by (simp add: version_constant_def match_version_def after_prefix_def sq_def less_Suc_eq eval_nat_numeral)

theorem version_stamped_for_santa_build_witness:
  "build demo_argv = ''v202312251200'' \<and> baseurl demo_argv = ''/santa/'' \<and> \<not> pretty demo_argv
   \<and> STATIC_URL demo_argv = ''/santa/v202312251200/''
   \<and> stamp_base_href demo_argv (''<head>'' @ base_href_placeholder @ ''</head>'')
       = ''<head>'' @ (''<base href='' @ [dq] @ ''/santa/v202312251200/'' @ [dq] @ ''>'') @ ''</head>''
   \<and> stamp_sw_version demo_argv (''// sw'' @ version_constant @ ''// end'')
       = ''// sw'' @ (''const version = '' @ [sq] @ ''v202312251200'' @ [sq] @ '';'') @ ''// end''
   \<and> build_prod demo_argv id demo_fs
     = ([(''dist_prod/index.html'',
          ''<html data-version='' @ [dq] @ ''v202312251200'' @ [dq] @ ''>'' @ [CHR 0x0A]
          @ ''<base href='' @ [dq] @ ''/santa/v202312251200/'' @ [dq] @ ''>'' @ [CHR 0x0A]
          @ ''<script>'' @ [CHR 0x0A]
          @ [CHR 0x0A]
          @ ''</script>'' @ [CHR 0x0A])],
        [(''dist_prod/sw.js'',
          ''const STATIC = '' @ [sq] @ ''/santa/v202312251200/'' @ [sq] @ '';'' @ [CHR 0x0A]
          @ ''const version = '' @ [sq] @ ''v202312251200'' @ [sq] @ '';'' @ [CHR 0x0A])])"
proof -
  have b: "build demo_argv = ''v202312251200''" and u: "baseurl demo_argv = ''/santa/''"
    and p: "\<not> pretty demo_argv"
    by (simp_all add: demo_argv_def)
  have r: "stamp_base_href demo_argv ''</head>'' = ''</head>''"
    by code_simp
  from version_stamped_for_santa_build
      [OF b u p, where pre = "''<head>''" and post = "''</head>''"]
    demo_no_earlier_placeholder
  have 1: "STATIC_URL demo_argv = ''/santa/v202312251200/''"
    and 2: "stamp_base_href demo_argv (''<head>'' @ base_href_placeholder @ ''</head>'')
       = ''<head>'' @ (''<base href='' @ [dq] @ ''/santa/v202312251200/'' @ [dq] @ ''>'') @ ''</head>''"
    by (simp_all add: r)
  from version_stamped_for_santa_build
      [OF b u p, where pre = "''// sw''" and post = "''// end''"]
    demo_no_earlier_version
  have 3: "stamp_sw_version demo_argv (''// sw'' @ version_constant @ ''// end'')
       = ''// sw'' @ (''const version = '' @ [sq] @ ''v202312251200'' @ [sq] @ '';'') @ ''// end''"
    by simp
  from b u p 1 2 3 demo_build_prod show ?thesis
    by (intro conjI)
qed

subsection \<open>Style compilation\<close>

lemma write_files_elsewhere:
  "p \<notin> (\<lambda>f. path_join dir (relative f)) ` set fs \<Longrightarrow> write_files dir now fs d p = d p"
  by (induction fs arbitrary: d) auto

lemma changed_retimed:
  "changed dir compareSha1Digest sha1 (retime_disk g d) (map (retime_file h) files)
     = map (retime_file h) (changed dir compareSha1Digest sha1 d files)"
  by (induction files)
     (auto simp: changed_def hasChanged_def retime_disk_def retime_file_def split: option.splits)

text \<open>
  Claim C5. In the \<^verbatim>\<open>sass\<close> task, a compiled file whose output file exists already
  reaches \<^verbatim>\<open>gulp.dest\<close> exactly when the digest of its contents differs from the digest
  of the file on disk; so a file that compiles to the very bytes on disk is not written
  again. (A file whose output does not exist yet is written.) The task changes the disk
  only where it writes such a file. And the choice does not look at modification times:
  with other times on the disk and on the compiled files, the same files get through.
\<close>

theorem sass_rewrites_by_digest:
  "(\<forall>f\<in>set (compile d). \<forall>t. d (path_join ''.'' (relative f)) = Some t \<longrightarrow>
       (f \<in> set (sass_emitted sha1 compile d) \<longleftrightarrow> sha1 (contents f) \<noteq> sha1 (bytes t))
       \<and> (contents f = bytes t \<longrightarrow> f \<notin> set (sass_emitted sha1 compile d)))
   \<and> (\<forall>f\<in>set (compile d). d (path_join ''.'' (relative f)) = None \<longrightarrow>
         f \<in> set (sass_emitted sha1 compile d))
   \<and> (\<forall>p. p \<notin> (\<lambda>f. path_join ''.'' (relative f)) ` set (sass_emitted sha1 compile d) \<longrightarrow>
         sass sha1 compile now d p = d p)
   \<and> changed ''.'' compareSha1Digest sha1 (retime_disk g d) (map (retime_file h) files)
       = map (retime_file h) (changed ''.'' compareSha1Digest sha1 d files)"
proof (intro conjI ballI allI impI)
  fix f
  assume "f \<in> set (compile d)" and "d (path_join ''.'' (relative f)) = None"
  then show "f \<in> set (sass_emitted sha1 compile d)"
    by (simp add: sass_emitted_def changed_def hasChanged_def)
next
  fix f t
  assume f: "f \<in> set (compile d)" and t: "d (path_join ''.'' (relative f)) = Some t"
  then show e: "f \<in> set (sass_emitted sha1 compile d) \<longleftrightarrow> sha1 (contents f) \<noteq> sha1 (bytes t)"
    by (simp add: sass_emitted_def changed_def hasChanged_def)
  assume "contents f = bytes t"
  with e show "f \<notin> set (sass_emitted sha1 compile d)" by simp
next
  fix p
  assume "p \<notin> (\<lambda>f. path_join ''.'' (relative f)) ` set (sass_emitted sha1 compile d)"
  then show "sass sha1 compile now d p = d p"
    unfolding sass_def by (rule write_files_elsewhere)
next
  show "changed ''.'' compareSha1Digest sha1 (retime_disk g d) (map (retime_file h) files)
       = map (retime_file h) (changed ''.'' compareSha1Digest sha1 d files)"
    by (rule changed_retimed)
qed

lemma demo_targets:
  "path_join ''.'' ''sass/main.css'' = ''sass/main.css''"
  "path_join ''.'' ''sass/other.css'' = ''sass/other.css''"
  by code_simp+

theorem sass_rewrites_by_digest_witness:
  "\<lparr>relative = ''sass/main.css'', contents = ''a{}'', stat_mtime = 9\<rparr> \<in> set demo_compiled
   \<and> demo_disk (path_join ''.'' ''sass/main.css'') = Some \<lparr>bytes = ''a{}'', modified = 5\<rparr>
   \<and> \<lparr>relative = ''sass/main.css'', contents = ''a{}'', stat_mtime = 9\<rparr>
         \<notin> set (sass_emitted demo_digest (\<lambda>d. demo_compiled) demo_disk)
   \<and> sass_emitted demo_digest (\<lambda>d. demo_compiled) demo_disk
       = [\<lparr>relative = ''sass/other.css'', contents = ''b{c:d}'', stat_mtime = 1\<rparr>]
   \<and> sass demo_digest (\<lambda>d. demo_compiled) 20 demo_disk ''sass/main.css''
       = Some \<lparr>bytes = ''a{}'', modified = 5\<rparr>
   \<and> sass demo_digest (\<lambda>d. demo_compiled) 20 demo_disk ''sass/other.css''
       = Some \<lparr>bytes = ''b{c:d}'', modified = 20\<rparr>"
proof -
  have m: "\<lparr>relative = ''sass/main.css'', contents = ''a{}'', stat_mtime = 9\<rparr> \<in> set demo_compiled"
    by (simp add: demo_compiled_def)
  have t: "demo_disk (path_join ''.'' ''sass/main.css'') = Some \<lparr>bytes = ''a{}'', modified = 5\<rparr>"
    by (simp add: demo_targets demo_disk_def)
  have e: "sass_emitted demo_digest (\<lambda>d. demo_compiled) demo_disk
       = [\<lparr>relative = ''sass/other.css'', contents = ''b{c:d}'', stat_mtime = 1\<rparr>]"
    by (simp add: sass_emitted_def changed_def hasChanged_def demo_compiled_def demo_disk_def
        demo_targets demo_digest_def)
  have o: "sass demo_digest (\<lambda>d. demo_compiled) 20 demo_disk ''sass/other.css''
       = Some \<lparr>bytes = ''b{c:d}'', modified = 20\<rparr>"
    by (simp add: sass_def e demo_targets)
  note inst = sass_rewrites_by_digest
    [where compile = "\<lambda>d. demo_compiled" and d = demo_disk and ?sha1.0 = demo_digest
       and now = 20 and g = "\<lambda>p. 0" and h = "\<lambda>p. 0" and files = "[]"]
  from inst m t
  have n: "\<lparr>relative = ''sass/main.css'', contents = ''a{}'', stat_mtime = 9\<rparr>
         \<notin> set (sass_emitted demo_digest (\<lambda>d. demo_compiled) demo_disk)"
    by fastforce
  from inst have "''sass/main.css''
        \<notin> (\<lambda>f. path_join ''.'' (relative f)) ` set (sass_emitted demo_digest (\<lambda>d. demo_compiled) demo_disk)
      \<longrightarrow> sass demo_digest (\<lambda>d. demo_compiled) 20 demo_disk ''sass/main.css''
            = demo_disk ''sass/main.css''"
    by blast
  moreover have "''sass/main.css''
        \<notin> (\<lambda>f. path_join ''.'' (relative f)) ` set (sass_emitted demo_digest (\<lambda>d. demo_compiled) demo_disk)"
    by (simp add: e demo_targets)
  ultimately have "sass demo_digest (\<lambda>d. demo_compiled) 20 demo_disk ''sass/main.css''
       = demo_disk ''sass/main.css''"
    by blast
  then have u: "sass demo_digest (\<lambda>d. demo_compiled) 20 demo_disk ''sass/main.css''
       = Some \<lparr>bytes = ''a{}'', modified = 5\<rparr>"
    by (simp add: demo_disk_def)
  from m t n e u o show ?thesis by (intro conjI)
qed

subsection \<open>The order of the stages\<close>

lemma needed_Rm_dist: "needed a Rm_dist = [Rm_dist]"
  by (simp add: needed_def eval_nat_numeral)

lemma needed_Copy_assets:
  "needed a Copy_assets =
     [Sass, Compile_scenes, Vulcanize_scenes, Compile_santa_api_service, Vulcanize_elements,
      Vulcanize, Build_prod, Build_prod_manifest, Copy_assets]"
  by (simp add: needed_def eval_nat_numeral)

lemma needed_Build_contents:
  "needed a Build_contents =
     [Sass, Compile_scenes, Vulcanize_scenes, Compile_santa_api_service, Vulcanize_elements,
      Vulcanize, Build_prod, Build_prod_manifest, Copy_assets, Build_contents]"
  by (simp add: needed_def eval_nat_numeral)

lemma sched_inv_start: "sched_inv a dist_start"
  by (simp add: sched_inv_def dist_start_def dist_sequence_def)

lemma step_inv:
  assumes "sched_inv a s" and "step a s e = Some s'"
  shows "sched_inv a s'"
proof (cases "queue s")
  case Nil
  with assms(2) show ?thesis by (cases e) simp_all
next
  case (Cons g rest)
  show ?thesis
  proof (cases e)
    case (Start t)
    with assms(2) Cons have
      c: "t \<in> set (needed a g)" "t \<notin> started s" "set (deps a t) \<subseteq> finished s"
      and s': "s' = s\<lparr>started := insert t (started s)\<rparr>"
      by (simp_all split: if_splits)
    from assms(1) Cons c s' show ?thesis
      by (auto simp: sched_inv_def)
  next
    case (Finish t)
    with assms(2) Cons have c: "t \<in> started s" "t \<notin> finished s"
      and s': "s' = (if t = g then \<lparr>queue = rest, started = {}, finished = {}\<rparr>
                     else s\<lparr>finished := insert t (finished s)\<rparr>)"
      by (simp_all split: if_splits)
    show ?thesis
    proof (cases "t = g")
      case True
      with s' have "s' = \<lparr>queue = rest, started = {}, finished = {}\<rparr>" by simp
      moreover from assms(1) Cons
      have "rest \<in> {[Copy_assets, Build_contents], [Build_contents], []}"
        by (auto simp: sched_inv_def dist_sequence_def)
      ultimately show ?thesis
        by (auto simp: sched_inv_def split: list.splits)
    next
      case False
      with s' have "s' = s\<lparr>finished := insert t (finished s)\<rparr>" by simp
      with assms(1) Cons c show ?thesis
        by (auto simp: sched_inv_def)
    qed
  qed
qed

lemma run_events_inv:
  "sched_inv a s \<Longrightarrow> run_events a s es = Some s' \<Longrightarrow> sched_inv a s'"
proof (induction es arbitrary: s)
  case Nil
  then show ?case by simp
next
  case (Cons e es)
  then show ?case
    by (auto split: option.splits dest: step_inv)
qed

lemma run_events_append:
  "run_events a s (xs @ ys) =
     (case run_events a s xs of None \<Rightarrow> None | Some s' \<Rightarrow> run_events a s' ys)"
  by (induction xs arbitrary: s) (auto split: option.splits)

lemma step_finished:
  assumes "step a s e = Some s'" and "t \<in> finished s'"
  shows "t \<in> finished s \<or> e = Finish t"
  using assms
  by (cases e) (auto split: list.splits if_splits)

lemma run_events_finished:
  "run_events a s es = Some s' \<Longrightarrow> t \<in> finished s' \<Longrightarrow> t \<in> finished s \<or> Finish t \<in> set es"
proof (induction es arbitrary: s)
  case Nil
  then show ?case by simp
next
  case (Cons e es)
  from Cons.prems(1) obtain s1 where
    1: "step a s e = Some s1" and 2: "run_events a s1 es = Some s'"
    by (auto split: option.splits)
  from Cons.IH [OF 2 Cons.prems(2)] have "t \<in> finished s1 \<or> Finish t \<in> set es" .
  with step_finished [OF 1] show ?case by auto
qed

lemma run_events_stopped:
  "queue s = [] \<Longrightarrow> run_events a s es = Some s' \<Longrightarrow> es = []"
  by (cases es) (auto split: option.splits elim: step.elims)

text \<open>
  Claim C7. In every run of \<^verbatim>\<open>dist\<close>, when \<^verbatim>\<open>build-contents\<close> starts, every other stage
  that writes output (scene, style and service compilation, HTML inlining, version
  stamping, asset copying) has finished before, and none of them is running; after that
  start nothing happens but \<^verbatim>\<open>build-contents\<close> finishing. So the manifest is computed
  last, over the finished output tree.
\<close>

theorem manifest_built_last:
  assumes "run_events a dist_start (pre @ Start Build_contents # post) = Some s'"
  shows "(\<forall>t\<in>set stages_before_manifest. Finish t \<in> set pre)
    \<and> (\<exists>s. run_events a dist_start pre = Some s \<and> queue s = [Build_contents]
          \<and> set stages_before_manifest \<subseteq> finished s \<and> started s = finished s)
    \<and> (post = [] \<or> post = [Finish Build_contents])"
proof -
  from assms obtain s s1 where
    r1: "run_events a dist_start pre = Some s"
    and st: "step a s (Start Build_contents) = Some s1"
    and r2: "run_events a s1 post = Some s'"
    by (auto simp: run_events_append split: option.splits)
  have inv: "sched_inv a s"
    using sched_inv_start r1 by (rule run_events_inv)
  from st obtain g rest where q: "queue s = g # rest"
    by (cases "queue s") simp_all
  with st have c: "Build_contents \<in> set (needed a g)" "Build_contents \<notin> started s"
      "Copy_assets \<in> finished s"
    and s1: "s1 = s\<lparr>started := insert Build_contents (started s)\<rparr>"
    by (simp_all split: if_splits)
  from inv q have "g \<in> {Rm_dist, Copy_assets, Build_contents}"
    by (auto simp: sched_inv_def dist_sequence_def)
  with c(1) have g: "g = Build_contents"
    by (auto simp: needed_Rm_dist needed_Copy_assets)
  with inv q have q': "queue s = [Build_contents]"
    by (auto simp: sched_inv_def dist_sequence_def)
  from inv have sub: "finished s \<subseteq> started s"
    and dep: "\<And>t. t \<in> started s \<Longrightarrow> set (deps a t) \<subseteq> finished s"
    by (auto simp: sched_inv_def)
  from c(3) sub have "Copy_assets \<in> started s" by blast
  from dep [OF this] have f1: "Vulcanize \<in> finished s" "Build_prod \<in> finished s"
      "Build_prod_manifest \<in> finished s"
    by simp_all
  from f1(1) sub have "Vulcanize \<in> started s" by blast
  from dep [OF this] have f2: "Vulcanize_scenes \<in> finished s" "Vulcanize_elements \<in> finished s"
    by simp_all
  from f2(1) sub have "Vulcanize_scenes \<in> started s" by blast
  from dep [OF this] have f3: "Sass \<in> finished s" "Compile_scenes \<in> finished s"
    by simp_all
  from f2(2) sub have "Vulcanize_elements \<in> started s" by blast
  from dep [OF this] have f4: "Compile_santa_api_service \<in> finished s"
    by simp
  have all: "set stages_before_manifest \<subseteq> finished s"
    using c(3) f1 f2 f3 f4 by (simp add: stages_before_manifest_def)
  from inv q g have "started s \<subseteq> set (needed a Build_contents)"
    by (simp add: sched_inv_def)
  with c(2) have "started s \<subseteq> set stages_before_manifest"
    by (auto simp: needed_Build_contents stages_before_manifest_def)
  with all sub have eq: "started s = finished s" by blast
  have fin: "\<forall>t\<in>set stages_before_manifest. Finish t \<in> set pre"
  proof
    fix t assume "t \<in> set stages_before_manifest"
    with all have "t \<in> finished s" by blast
    from run_events_finished [OF r1 this] show "Finish t \<in> set pre"
      by (simp add: dist_start_def)
  qed
  have post: "post = [] \<or> post = [Finish Build_contents]"
  proof (cases post)
    case Nil
    then show ?thesis by simp
  next
    case (Cons e es)
    with r2 obtain s2 where e: "step a s1 e = Some s2" and es: "run_events a s2 es = Some s'"
      by (auto split: option.splits)
    have st1: "started s1 = insert Build_contents (finished s)" and fi1: "finished s1 = finished s"
      and q1: "queue s1 = [Build_contents]"
      using s1 eq q' by simp_all
    have cover: "set (needed a Build_contents) \<subseteq> started s1"
      using all st1 by (auto simp: needed_Build_contents stages_before_manifest_def)
    have "e = Finish Build_contents \<and> queue s2 = []"
    proof (cases e)
      case (Start t)
      with e q1 cover show ?thesis by (auto split: if_splits)
    next
      case (Finish t)
      with e q1 st1 fi1 show ?thesis by (auto split: if_splits)
    qed
    with es run_events_stopped [of s2 a es s'] Cons show ?thesis by simp
  qed
  from fin r1 q' all eq post show ?thesis by blast
qed

lemma demo_dist_run:
  "run_events demo_argv dist_start
     (demo_before_manifest @ Start Build_contents # [Finish Build_contents])
   = Some \<lparr>queue = [], started = {}, finished = {}\<rparr>"
  by code_simp

theorem manifest_built_last_witness:
  "run_events demo_argv dist_start
     (demo_before_manifest @ Start Build_contents # [Finish Build_contents])
     = Some \<lparr>queue = [], started = {}, finished = {}\<rparr>
   \<and> Finish ` set stages_before_manifest \<subseteq> set demo_before_manifest
   \<and> (\<exists>s. run_events demo_argv dist_start demo_before_manifest = Some s
          \<and> queue s = [Build_contents]
          \<and> set stages_before_manifest \<subseteq> finished s \<and> started s = finished s)"
  using manifest_built_last [OF demo_dist_run] demo_dist_run
  by blast

lemma demo_copy_assets_too_early:
  "run_events demo_argv dist_start [Start Rm_dist, Finish Rm_dist, Start Sass, Start Copy_assets]
     = None"
  by code_simp

end
